theory Spec2Isabelle
  imports Complex_Main
begin

section \<open>Python values, effects and exceptions\<close>

text \<open>
  The services are Flask applications. Each handler is embedded as a function that
  takes the state of the process and returns its result together with the new state.
  A raised exception is a value (\<open>Inl\<close>), so every \<open>raise\<close>, \<open>try\<close> and \<open>except\<close> of the
  source is a branch of its model. Floating-point numbers are modelled as reals.
\<close>

text \<open>
  An f-string is kept as the list of its pieces: literal text, an integer, a float, or a
  float printed with a fixed number of decimals (\<open>{d:.3f}\<close>).
\<close>

datatype piece = Lit string | Dec int | Flt real | Fix nat real

type_synonym msg = "piece list"

text \<open>
  JSON values as \<open>jsonify\<close> receives them. \<open>JText\<close> is a string built by an f-string,
  \<open>JTime t\<close> the string \<open>datetime.now().isoformat()\<close> taken at time \<open>t\<close>. A dictionary is
  an association list; the order of its keys carries no meaning.
\<close>

datatype jval =
    JNull
  | JBool bool
  | JInt int
  | JNum real
  | JStr string
  | JText msg
  | JTime real
  | JList "jval list"
  | JDict "(string \<times> jval) list"

datatype exn =
    ValueError msg
  | TypeError msg
  | KeyError msg
  | AttributeError msg
  | OperationalError msg
  | OverflowError msg
  | OSError msg
  | StopIteration

fun exn_name :: "exn \<Rightarrow> string" where
  "exn_name (ValueError m) = ''ValueError''"
| "exn_name (TypeError m) = ''TypeError''"
| "exn_name (KeyError m) = ''KeyError''"
| "exn_name (AttributeError m) = ''AttributeError''"
| "exn_name (OperationalError m) = ''OperationalError''"
| "exn_name (OverflowError m) = ''OverflowError''"
| "exn_name (OSError m) = ''OSError''"
| "exn_name StopIteration = ''StopIteration''"

fun exn_str :: "exn \<Rightarrow> msg" where
  "exn_str (ValueError m) = m"
| "exn_str (TypeError m) = m"
| "exn_str (KeyError m) = m"
| "exn_str (AttributeError m) = m"
| "exn_str (OperationalError m) = m"
| "exn_str (OverflowError m) = m"
| "exn_str (OSError m) = m"
| "exn_str StopIteration = []"

datatype level = INFO | WARNING | ERROR

text \<open>
  What a run leaves behind besides its result, in the order it happens: log lines, the
  pauses of \<open>time.sleep\<close>, and what the tracing library is told (a span is opened, gets
  an attribute or an event, and is closed).
\<close>

datatype event =
    Log level msg
  | Sleep real
  | Span_start msg
  | Span_attribute string jval
  | Span_event msg
  | Span_end

fun is_log :: "event \<Rightarrow> bool" where
  "is_log (Log l m) = True"
| "is_log _ = False"

text \<open>\<open>random.random()\<close> returns a float in the half-open interval from 0 to 1.\<close>

typedef rnd = "{x::real. 0 \<le> x \<and> x < 1}"
  by (rule exI[of _ 0]) simp

text \<open>
  The longest pause, in seconds, that \<open>time.sleep\<close> accepts. It depends on the platform
  and on the platform's clock: a duration of \<open>2\<^sup>6\<^sup>3\<close> nanoseconds or more does not fit
  the interpreter's time stamps, and a shorter one is refused by the operating system
  when the moment of waking does not fit them. A pause of a day is accepted everywhere.
\<close>

typedef pause = "{x::real. 86400 \<le> x \<and> x * 10 ^ 9 < 2 ^ 63}"
  by (rule exI[of _ 86400]) simp

text \<open>
  The process: the application's own state \<open>st\<close>, the wall clock in seconds, the
  events so far, the random source (the draws to come and how many were taken), and the
  longest pause the platform accepts.
\<close>

record 's world =
  st :: 's
  clock :: real
  trace :: "event list"
  rand :: "nat \<Rightarrow> rnd"
  rand_pos :: nat
  sleep_max :: pause

type_synonym ('s, 'a) prog = "'s world \<Rightarrow> (exn + 'a) \<times> 's world"

definition ret :: "'a \<Rightarrow> ('s, 'a) prog" where
  "ret x = (\<lambda>w. (Inr x, w))"

definition raise :: "exn \<Rightarrow> ('s, 'a) prog" where
  "raise e = (\<lambda>w. (Inl e, w))"

definition do_bind :: "('s, 'a) prog \<Rightarrow> ('a \<Rightarrow> ('s, 'b) prog) \<Rightarrow> ('s, 'b) prog" where
  "do_bind m f = (\<lambda>w. case m w of (Inl e, w') \<Rightarrow> (Inl e, w') | (Inr a, w') \<Rightarrow> f a w')"

definition do_seq :: "('s, 'a) prog \<Rightarrow> ('s, 'b) prog \<Rightarrow> ('s, 'b) prog" where
  "do_seq m k = do_bind m (\<lambda>_. k)"

text \<open>\<open>try: m except Exception as e: h e\<close>; the state reached when \<open>m\<close> raised is kept.\<close>

definition try_except :: "('s, 'a) prog \<Rightarrow> (exn \<Rightarrow> ('s, 'a) prog) \<Rightarrow> ('s, 'a) prog" where
  "try_except m h = (\<lambda>w. case m w of (Inl e, w') \<Rightarrow> h e w' | (Inr a, w') \<Rightarrow> (Inr a, w'))"

definition emit :: "event \<Rightarrow> ('s, unit) prog" where
  "emit ev = (\<lambda>w. (Inr (), w\<lparr>trace := trace w @ [ev]\<rparr>))"

definition logger_info :: "msg \<Rightarrow> ('s, unit) prog" where
  "logger_info m = emit (Log INFO m)"

definition logger_warning :: "msg \<Rightarrow> ('s, unit) prog" where
  "logger_warning m = emit (Log WARNING m)"

definition logger_error :: "msg \<Rightarrow> ('s, unit) prog" where
  "logger_error m = emit (Log ERROR m)"

text \<open>
  The tracing library: \<open>span.add_event\<close>, \<open>span.set_attribute\<close>, and the block
  \<open>with tracer.start_as_current_span(name) as span\<close>, which closes the span when the block
  is left, also by an exception.
\<close>

definition span_add_event :: "msg \<Rightarrow> ('s, unit) prog" where
  "span_add_event m = emit (Span_event m)"

definition span_set_attribute :: "string \<Rightarrow> jval \<Rightarrow> ('s, unit) prog" where
  "span_set_attribute k v = emit (Span_attribute k v)"

definition with_span :: "msg \<Rightarrow> ('s, 'a) prog \<Rightarrow> ('s, 'a) prog" where
  "with_span name block =
     (\<lambda>w. case block (w\<lparr>trace := trace w @ [Span_start name]\<rparr>) of
            (r, w') \<Rightarrow> (r, w'\<lparr>trace := trace w' @ [Span_end]\<rparr>))"

text \<open>
  \<open>time.sleep(d)\<close> raises \<open>ValueError\<close> for a negative \<open>d\<close>, \<open>OverflowError\<close> for a
  \<open>d\<close> of \<open>2\<^sup>6\<^sup>3\<close> nanoseconds or more, and \<open>OSError\<close> for any other \<open>d\<close> beyond the
  longest pause the platform accepts; otherwise the thread pauses and the clock moves
  on by \<open>d\<close>. The message of the \<open>OverflowError\<close> depends on whether \<open>d\<close> is a float
  (\<open>time_sleep\<close>) or an integer (\<open>time_sleep_int\<close>).
\<close>

definition sleep_seconds :: "msg \<Rightarrow> real \<Rightarrow> ('s, unit) prog" where
  "sleep_seconds too_large d =
     (\<lambda>w. if d < 0 then (Inl (ValueError [Lit ''sleep length must be non-negative'']), w)
          else if 2 ^ 63 \<le> d * 10 ^ 9 then (Inl (OverflowError too_large), w)
          else if Rep_pause (sleep_max w) < d
            then (Inl (OSError [Lit ''[Errno 22] Invalid argument'']), w)
          else (Inr (), w\<lparr>clock := clock w + d, trace := trace w @ [Sleep d]\<rparr>))"

definition time_sleep :: "real \<Rightarrow> ('s, unit) prog" where
  "time_sleep d = sleep_seconds [Lit ''timestamp out of range for platform time_t''] d"

definition time_sleep_int :: "int \<Rightarrow> ('s, unit) prog" where
  "time_sleep_int n =
     sleep_seconds [Lit ''timestamp too large to convert to C _PyTime_t''] (real_of_int n)"

definition time_time :: "('s, real) prog" where
  "time_time = (\<lambda>w. (Inr (clock w), w))"

definition random_random :: "('s, real) prog" where
  "random_random = (\<lambda>w. (Inr (Rep_rnd (rand w (rand_pos w))), w\<lparr>rand_pos := Suc (rand_pos w)\<rparr>))"

text \<open>\<open>random.uniform(a, b)\<close> is \<open>a + (b - a) * random()\<close>.\<close>

definition random_uniform :: "real \<Rightarrow> real \<Rightarrow> ('s, real) prog" where
  "random_uniform a b = do_bind random_random (\<lambda>r. ret (a + (b - a) * r))"


text \<open>Reading and changing the application's own state.\<close>

definition gets :: "('s \<Rightarrow> 'a) \<Rightarrow> ('s, 'a) prog" where
  "gets f = (\<lambda>w. (Inr (f (st w)), w))"

definition modify :: "('s \<Rightarrow> 's) \<Rightarrow> ('s, unit) prog" where
  "modify f = (\<lambda>w. (Inr (), w\<lparr>st := f (st w)\<rparr>))"

subsection \<open>Responses\<close>

record response =
  status_code :: nat
  body :: jval

text \<open>\<open>jsonify(d)\<close> alone answers 200; \<open>jsonify(d), c\<close> answers \<open>c\<close>.\<close>

definition jsonify :: "jval \<Rightarrow> response" where
  "jsonify d = \<lparr>status_code = 200, body = d\<rparr>"

definition jsonify_code :: "jval \<Rightarrow> nat \<Rightarrow> response" where
  "jsonify_code d c = \<lparr>status_code = c, body = d\<rparr>"

text \<open>The value a JSON object holds under a key, if it has the key.\<close>

fun field :: "jval \<Rightarrow> string \<Rightarrow> jval option" where
  "field (JDict kvs) k = map_of kvs k"
| "field _ k = None"

subsection \<open>Query parameters and \<open>int()\<close>\<close>

text \<open>
  \<open>request.args.get(k)\<close> reads the query string, an association list of strings; a
  character stands for the code point of its number, below 256.
  \<open>int(s)\<close> on a string skips the white space at both ends, reads an optional sign and
  then a run of decimal digits, where single underscores may stand between digits. It
  raises \<open>ValueError\<close> when the run is not of that form, when it has more than 4300
  digits, and when anything follows it. The white space it skips is the space, the
  characters 9 to 13, and the code points 133 and 160; the characters 28 to 31 are not.
\<close>

definition is_space :: "char \<Rightarrow> bool" where
  "is_space c = (c \<in> set [CHR '' '', CHR 0x09, CHR 0x0A, CHR 0x0B, CHR 0x0C, CHR 0x0D,
                            CHR 0x85, CHR 0xA0])"

definition strip :: "string \<Rightarrow> string" where
  "strip s = rev (dropWhile is_space (rev (dropWhile is_space s)))"

definition is_digit :: "char \<Rightarrow> bool" where
  "is_digit c = (c \<in> set ''0123456789'')"

definition digit_val :: "char \<Rightarrow> int" where
  "digit_val c = int (of_char c) - 48"

fun digits_acc :: "string \<Rightarrow> int \<Rightarrow> int option" where
  "digits_acc [] acc = Some acc"
| "digits_acc (c # cs) acc =
     (if is_digit c then digits_acc cs (10 * acc + digit_val c)
      else if c = CHR ''_'' \<and> cs \<noteq> [] \<and> is_digit (hd cs) then digits_acc cs acc
      else None)"

definition digits :: "string \<Rightarrow> int option" where
  "digits s = (case s of [] \<Rightarrow> None | c # cs \<Rightarrow> if is_digit c then digits_acc s 0 else None)"

definition in_number :: "char \<Rightarrow> bool" where
  "in_number c = (is_digit c \<or> c = CHR ''_'')"

definition py_int :: "string \<Rightarrow> exn + int" where
  "py_int s =
     (let t = strip s;
          signed = (t \<noteq> [] \<and> (hd t = CHR ''-'' \<or> hd t = CHR ''+''));
          u = (if signed then tl t else t);
          number = takeWhile in_number u;
          rest = dropWhile in_number u
      in case digits number of
           None \<Rightarrow> Inl (ValueError [Lit ''invalid literal for int() with base 10: '', Lit s])
         | Some n \<Rightarrow>
             if 4300 < length (filter is_digit number)
             then Inl (ValueError
                    [Lit ''Exceeds the limit (4300 digits) for integer string conversion: value has '',
                     Dec (int (length (filter is_digit number))),
                     Lit '' digits; use sys.set_int_max_str_digits() to increase the limit''])
             else if rest \<noteq> []
             then Inl (ValueError [Lit ''invalid literal for int() with base 10: '', Lit s])
             else Inr (if signed \<and> hd t = CHR ''-'' then - n else n))"

definition int_of :: "string \<Rightarrow> ('s, int) prog" where
  "int_of s = (\<lambda>w. (py_int s, w))"

text \<open>\<open>int(request.args.get(k, d))\<close> with an integer default \<open>d\<close>.\<close>

definition int_arg :: "(string \<times> string) list \<Rightarrow> string \<Rightarrow> int \<Rightarrow> ('s, int) prog" where
  "int_arg args k d = (case map_of args k of None \<Rightarrow> ret d | Some s \<Rightarrow> int_of s)"

section \<open>The Cloud Run test application (\<open>app.py\<close>)\<close>

text \<open>
  Its state outside the SQLite file: the environment variables, the CPU load that
  \<open>psutil\<close> reports, the threads started so far, and the address of the client whose
  request is being served. A background thread is known by the task identifier and the
  duration it was started with.
\<close>

datatype thread = Background_task msg int

record cloud =
  environ :: "string \<Rightarrow> string option"
  cpu_percent :: real
  spawned :: "thread list"
  remote_addr :: string

type_synonym 'a cloud_prog = "(cloud, 'a) prog"

text \<open>
  \<open>init_db\<close> creates the tables \<open>users\<close> and \<open>orders\<close> and no handler creates another;
  \<open>SELECT * FROM t\<close> raises \<open>sqlite3.OperationalError\<close> for any other table.
\<close>

definition schema :: "string list" where
  "schema = [''users'', ''orders'']"

definition select_all_from :: "string \<Rightarrow> unit cloud_prog" where
  "select_all_from t =
     (if t \<in> set schema then ret ()
      else raise (OperationalError [Lit ''no such table: '', Lit t]))"

subsection \<open>\<open>/health\<close>\<close>

definition health_check :: "response cloud_prog" where
  "health_check = (\<lambda>w. ret (jsonify_code (JDict
      [(''status'', JStr ''healthy''),
       (''timestamp'', JTime (clock w)),
       (''dynatrace_agent_path'',
          JStr (case environ (st w) ''DT_AGENTPATH'' of None \<Rightarrow> ''Not set'' | Some p \<Rightarrow> p)),
       (''service'', JStr ''dynatrace-test-app'')]) 200) w)"

subsection \<open>\<open>/cpu-intensive\<close>\<close>

text \<open>
  The loop \<open>for i in range(iterations)\<close> with the running \<open>result\<close>; \<open>i\<close> is the next
  index. Python integers are unbounded, as \<open>int\<close> is.
\<close>

function cpu_loop :: "int \<Rightarrow> int \<Rightarrow> int \<Rightarrow> int cloud_prog" where
  "cpu_loop i iterations result =
     (if i < iterations
      then (if i mod 10000 = 0
            then do_seq (time_sleep 0.001) (cpu_loop (i + 1) iterations (result + i ^ 2))
            else cpu_loop (i + 1) iterations (result + i ^ 2))
      else ret result)"
  by pat_completeness auto
termination
  by (relation "measure (\<lambda>(i, n, r). nat (n - i))") auto

declare cpu_loop.simps [simp del]

text \<open>Python's \<open>round(x, 3)\<close>: to the nearest thousandth, a tie to the even one.\<close>

definition round3 :: "real \<Rightarrow> real" where
  "round3 x =
     (let y = x * 1000; f = \<lfloor>y\<rfloor>
      in real_of_int (if y - real_of_int f < 1 / 2 then f
                      else if 1 / 2 < y - real_of_int f then f + 1
                      else if even f then f else f + 1) / 1000)"

definition cpu_intensive :: "(string \<times> string) list \<Rightarrow> response cloud_prog" where
  "cpu_intensive args =
     do_bind time_time (\<lambda>start_time.
     do_bind (int_arg args ''iterations'' 100000) (\<lambda>iterations.
     do_seq (logger_info [Lit ''Starting CPU intensive task with '', Dec iterations, Lit '' iterations''])
    (do_bind (cpu_loop 0 iterations 0) (\<lambda>result.
     do_bind time_time (\<lambda>end_time.
     do_seq (logger_info [Lit ''CPU intensive task completed in '', Fix 2 (end_time - start_time),
                          Lit '' seconds''])
    (\<lambda>w. ret (jsonify (JDict
       [(''result'', JInt result),
        (''iterations'', JInt iterations),
        (''duration_seconds'', JNum (round3 (end_time - start_time))),
        (''cpu_percent'', JNum (cpu_percent (st w))),
        (''message'', JText [Lit ''Completed '', Dec iterations, Lit '' iterations in '',
                             Fix 3 (end_time - start_time), Lit ''s''])])) w))))))"

subsection \<open>\<open>/error-test\<close>\<close>

text \<open>
  A view that runs off its end returns \<open>None\<close>; only \<open>error_test\<close> has such a path (its
  \<open>db_error\<close> branch when the query raises nothing), so its result is an option.
\<close>

definition error_test :: "(string \<times> string) list \<Rightarrow> response option cloud_prog" where
  "error_test args =
     (let error_type = (case map_of args ''type'' of None \<Rightarrow> ''http_error'' | Some t \<Rightarrow> t)
      in do_seq (logger_warning [Lit ''Generating test error of type: '', Lit error_type])
        (if error_type = ''http_error'' then
           ret (Some (jsonify_code (JDict
             [(''error'', JStr ''This is a test HTTP error''),
              (''error_type'', JStr ''http_error''),
              (''message'', JStr ''Intentional 500 error for testing'')]) 500))
         else if error_type = ''exception'' then
           raise (ValueError [Lit ''This is a test exception for Dynatrace monitoring''])
         else if error_type = ''db_error'' then
           try_except
             (do_seq (select_all_from ''non_existent_table'') (ret None))
             (\<lambda>e. ret (Some (jsonify_code (JDict
                [(''error'', JText (exn_str e)),
                 (''error_type'', JStr ''database_error''),
                 (''message'', JStr ''Intentional database error for testing'')]) 500)))
         else
           ret (Some (jsonify_code (JDict
             [(''error'', JStr ''Unknown error type''),
              (''valid_types'', JList [JStr ''http_error'', JStr ''exception'', JStr ''db_error'']),
              (''message'', JStr ''Please specify a valid error type'')]) 400))))"

subsection \<open>Error handlers and dispatch\<close>

text \<open>\<open>@app.errorhandler(500)\<close>.\<close>

definition internal_error :: "msg \<Rightarrow> response cloud_prog" where
  "internal_error err =
     do_seq (logger_error (Lit ''500 error: '' # err))
       (\<lambda>w. ret (jsonify_code (JDict
          [(''error'', JStr ''Internal server error''),
           (''message'', JStr ''An unexpected error occurred''),
           (''timestamp'', JTime (clock w))]) 500) w)"

text \<open>\<open>@app.errorhandler(Exception)\<close>.\<close>

definition handle_exception :: "exn \<Rightarrow> response cloud_prog" where
  "handle_exception e =
     do_seq (logger_error (Lit ''Unhandled exception: '' # exn_str e))
       (\<lambda>w. ret (jsonify_code (JDict
          [(''error'', JStr ''Application error''),
           (''type'', JStr (exn_name e)),
           (''message'', JText (exn_str e)),
           (''timestamp'', JTime (clock w))]) 500) w)"

text \<open>
  \<open>@app.before_request\<close> and \<open>@app.after_request\<close>: the first notes the time in
  \<open>g.start_time\<close> (here its result) and logs the request, the second logs the response
  with the time the request took. The header \<open>X-Response-Time\<close> that the second adds is
  not part of the responses here.
\<close>

definition before_request :: "string \<Rightarrow> string \<Rightarrow> real cloud_prog" where
  "before_request request_method request_path =
     do_bind time_time (\<lambda>start_time.
     do_bind (gets remote_addr) (\<lambda>addr.
     do_seq (logger_info [Lit ''Request: '', Lit request_method, Lit '' '', Lit request_path,
                          Lit '' from '', Lit addr])
            (ret start_time)))"

definition after_request :: "string \<Rightarrow> string \<Rightarrow> real \<Rightarrow> response \<Rightarrow> response cloud_prog" where
  "after_request request_method request_path start_time response =
     do_bind time_time (\<lambda>now.
     do_seq (logger_info [Lit ''Response: '', Dec (int (status_code response)), Lit '' ('',
                          Fix 3 (now - start_time), Lit ''s) - '', Lit request_method, Lit '' '',
                          Lit request_path])
            (ret response))"

text \<open>
  Flask runs the function registered to run before the request, then the view of the
  matched route. An exception the view raises goes to the handler registered for
  \<open>Exception\<close>; a view that returned \<open>None\<close> makes Flask fail with a \<open>TypeError\<close> after
  the view, which the handler registered for 500 answers. The response, from the view or
  from a handler, passes through the function registered to run after the request.
\<close>

definition dispatch :: "string \<Rightarrow> string \<Rightarrow> response option cloud_prog \<Rightarrow> response cloud_prog" where
  "dispatch request_method request_path view =
     do_bind (before_request request_method request_path) (\<lambda>start_time.
     do_bind (try_except
                (do_bind view (\<lambda>rv. case rv of
                     Some r \<Rightarrow> ret r
                   | None \<Rightarrow> internal_error [Lit ''500 Internal Server Error'']))
                handle_exception)
             (after_request request_method request_path start_time))"

definition returning :: "response cloud_prog \<Rightarrow> response option cloud_prog" where
  "returning view = do_bind view (\<lambda>r. ret (Some r))"

definition get_health :: "response cloud_prog" where
  "get_health = dispatch ''GET'' ''/health'' (returning health_check)"

definition get_cpu_intensive :: "(string \<times> string) list \<Rightarrow> response cloud_prog" where
  "get_cpu_intensive args = dispatch ''GET'' ''/cpu-intensive'' (returning (cpu_intensive args))"

definition get_error_test :: "(string \<times> string) list \<Rightarrow> response cloud_prog" where
  "get_error_test args = dispatch ''GET'' ''/error-test'' (error_test args)"


subsection \<open>\<open>/async-task\<close>\<close>







text \<open>
  A process right after start, with every random draw 0, on a platform whose longest
  pause is a day (as in the other sample processes below).
\<close>

definition cloud_start :: "cloud world" where
  "cloud_start =
     \<lparr>st = \<lparr>environ = (\<lambda>k. None), cpu_percent = 0, spawned = [],
             remote_addr = ''127.0.0.1''\<rparr>,
      clock = 0, trace = [], rand = (\<lambda>n. Abs_rnd 0), rand_pos = 0,
      sleep_max = Abs_pause 86400\<rparr>"

section \<open>The demo application (\<open>app-demo/app.py\<close>)\<close>

text \<open>
  Its users live in the SQLite table \<open>users\<close>, whose \<open>id\<close> column is
  \<open>INTEGER PRIMARY KEY AUTOINCREMENT\<close>; the schema has no uniqueness constraint on
  \<open>email\<close>. The state is the rows of the table and the last identifier handed out.
\<close>

record user_row =
  row_id :: int
  row_name :: string
  row_email :: string
  row_created_at :: real

record demo =
  user_rows :: "user_row list"
  last_row_id :: int

type_synonym 'a demo_prog = "(demo, 'a) prog"


text \<open>
  The body of a request, as \<open>request.get_json()\<close> returns it: a JSON object with string
  values, or \<open>None\<close>. \<open>data.get(k)\<close> on \<open>None\<close> raises \<open>AttributeError\<close>.
\<close>

type_synonym json_object = "(string \<times> string) list"




definition demo_health :: "response demo_prog" where
  "demo_health = (\<lambda>w. ret (jsonify (JDict
      [(''status'', JStr ''healthy''),
       (''timestamp'', JTime (clock w))])) w)"


section \<open>The in-memory shop (\<open>app-without-inst.py\<close>)\<close>

text \<open>
  The module keeps its users, orders and products in three Python lists and its
  counters in the dictionary \<open>app_metrics\<close>. Prices are floats.
\<close>

record user =
  u_id :: int
  u_name :: string
  u_email :: string
  u_created_at :: real
  u_status :: string

record item =
  i_product_id :: int
  i_name :: string
  i_price :: real

record order =
  o_id :: int
  o_user_id :: int
  o_user_name :: string
  o_items :: "item list"
  o_total_amount :: real
  o_status :: string
  o_created_at :: real

record product =
  p_id :: int
  p_name :: string
  p_price :: real
  p_stock :: int

record metrics =
  total_requests :: int
  total_errors :: int
  response_times :: "real list"

record store =
  users :: "user list"
  orders :: "order list"
  products :: "product list"
  app_metrics :: metrics

type_synonym 'a store_prog = "(store, 'a) prog"

definition seed_products :: "product list" where
  "seed_products =
     [\<lparr>p_id = 1, p_name = ''Laptop'', p_price = 999.99, p_stock = 10\<rparr>,
      \<lparr>p_id = 2, p_name = ''Phone'', p_price = 699.99, p_stock = 25\<rparr>,
      \<lparr>p_id = 3, p_name = ''Tablet'', p_price = 399.99, p_stock = 15\<rparr>,
      \<lparr>p_id = 4, p_name = ''Headphones'', p_price = 199.99, p_stock = 50\<rparr>]"

definition store_start :: "store world" where
  "store_start =
     \<lparr>st = \<lparr>users = [], orders = [], products = seed_products,
             app_metrics = \<lparr>total_requests = 0, total_errors = 0, response_times = []\<rparr>\<rparr>,
      clock = 0, trace = [], rand = (\<lambda>n. Abs_rnd 0), rand_pos = 0,
      sleep_max = Abs_pause 86400\<rparr>"

text \<open>\<open>app_metrics['total_requests'] += 1\<close> and \<open>app_metrics['total_errors'] += 1\<close>.\<close>

definition count_request :: "unit store_prog" where
  "count_request =
     modify (\<lambda>s. s\<lparr>app_metrics := (app_metrics s)\<lparr>total_requests := total_requests (app_metrics s) + 1\<rparr>\<rparr>)"

definition count_error :: "unit store_prog" where
  "count_error =
     modify (\<lambda>s. s\<lparr>app_metrics := (app_metrics s)\<lparr>total_errors := total_errors (app_metrics s) + 1\<rparr>\<rparr>)"

subsection \<open>The simulated operations\<close>

definition simulate_database_operation :: "string \<Rightarrow> real \<times> real \<Rightarrow> ('s, real) prog" where
  "simulate_database_operation operation_type duration_range =
     do_seq (logger_info [Lit ''Starting '', Lit operation_type, Lit '' operation''])
    (do_bind (random_uniform (fst duration_range) (snd duration_range)) (\<lambda>duration.
     do_seq (time_sleep duration)
    (do_seq (logger_info [Lit ''Completed '', Lit operation_type, Lit '' operation in '',
                          Fix 3 duration, Lit ''s''])
            (ret duration))))"

text \<open>The default of the parameter \<open>duration_range\<close>.\<close>

definition default_range :: "real \<times> real" where
  "default_range = (0.05, 0.2)"

definition simulate_cache_operation :: "string \<Rightarrow> real \<Rightarrow> ('s, bool) prog" where
  "simulate_cache_operation cache_key hit_rate =
     do_seq (logger_info [Lit ''Cache lookup for key: '', Lit cache_key])
    (do_bind random_random (\<lambda>r.
       if r < hit_rate then
         do_bind (random_uniform 0.001 0.005) (\<lambda>d.
         do_seq (time_sleep d)
        (do_seq (logger_info [Lit ''Cache hit'']) (ret True)))
       else
         do_bind (random_uniform 0.01 0.03) (\<lambda>d.
         do_seq (time_sleep d)
        (do_seq (logger_info [Lit ''Cache miss'']) (ret False)))))"

text \<open>The loop \<open>for step in steps\<close> of \<open>process_business_logic\<close>.\<close>

fun business_steps :: "string list \<Rightarrow> string \<Rightarrow> ('s, unit) prog" where
  "business_steps [] complexity = ret ()"
| "business_steps (step # steps) complexity =
     do_seq (logger_info [Lit ''Executing step: '', Lit step])
    (do_bind (if step = ''process'' \<and> complexity = ''high''
              then random_uniform 0.1 0.3 else random_uniform 0.02 0.05) (\<lambda>d.
     do_seq (time_sleep d)
    (do_seq (logger_info [Lit ''Completed '', Lit step])
            (business_steps steps complexity))))"

definition process_business_logic :: "string \<Rightarrow> string \<Rightarrow> ('s, unit) prog" where
  "process_business_logic operation_name complexity =
     do_seq (logger_info [Lit ''Processing '', Lit operation_name, Lit '' with '',
                          Lit complexity, Lit '' complexity''])
    (do_seq (logger_info [Lit ''Starting validation''])
    (do_bind (random_uniform 0.01 0.03) (\<lambda>d.
     do_seq (time_sleep d)
    (do_seq (logger_info [Lit ''Validation completed''])
    (do_seq (business_steps [''initialize'', ''process'', ''finalize''] complexity)
            (logger_info [Lit ''Business logic completed'']))))))"

subsection \<open>Users\<close>

definition user_json :: "user \<Rightarrow> jval" where
  "user_json u = JDict
     [(''id'', JInt (u_id u)),
      (''name'', JStr (u_name u)),
      (''email'', JStr (u_email u)),
      (''created_at'', JTime (u_created_at u)),
      (''status'', JStr (u_status u))]"

text \<open>\<open>d[k]\<close> on a dictionary raises \<open>KeyError\<close> for a missing key.\<close>

definition getitem :: "json_object \<Rightarrow> string \<Rightarrow> ('s, string) prog" where
  "getitem d k = (case map_of d k of None \<Rightarrow> raise (KeyError [Lit k]) | Some v \<Rightarrow> ret v)"

text \<open>
  \<open>create_user\<close>, with its two early returns and the rest of its \<open>try\<close> block as
  definitions of their own. The body \<open>request.json\<close> is a JSON object with string values,
  or \<open>None\<close>. The test \<open>not user_data or 'name' not in user_data or 'email' not in user_data\<close>
  holds for \<open>None\<close>, for the empty object and for an object without one of the keys.
\<close>

definition invalid_user_data :: "response store_prog" where
  "invalid_user_data =
     do_seq (logger_error [Lit ''Invalid user data''])
    (do_seq count_error
            (ret (jsonify_code (JDict [(''error'', JStr ''Invalid user data'')]) 400)))"

definition email_exists :: "string \<Rightarrow> response store_prog" where
  "email_exists email =
     do_seq (logger_warning [Lit ''Email already exists: '', Lit email])
    (do_seq count_error
            (ret (jsonify_code (JDict [(''error'', JStr ''Email already exists'')]) 409)))"

text \<open>From \<open># Create user object\<close> to the end of the \<open>try\<close> block.\<close>

definition save_user :: "string \<Rightarrow> string \<Rightarrow> response store_prog" where
  "save_user name email =
     do_bind (gets users) (\<lambda>us.
     do_bind time_time (\<lambda>now.
     let user = \<lparr>u_id = int (length us) + 1, u_name = name, u_email = email,
                 u_created_at = now, u_status = ''active''\<rparr>
     in do_seq (simulate_database_operation ''insert_user'' (0.08, 0.15))
       (do_seq (modify (\<lambda>s. s\<lparr>users := users s @ [user]\<rparr>))
       (do_bind (random_uniform 0.01 0.03) (\<lambda>d1.
        do_seq (time_sleep d1)
       (do_seq (logger_info [Lit ''User cache updated''])
       (do_bind (random_uniform 0.05 0.1) (\<lambda>d2.
        do_seq (time_sleep d2)
       (do_seq (logger_info [Lit ''Welcome notification sent to '', Lit (u_email user)])
       (do_seq (logger_info [Lit ''Created user: '', Lit (u_name user),
                             Lit '' (ID: '', Dec (u_id user), Lit '')''])
               (ret (jsonify_code (user_json user) 201))))))))))))"

definition create_user :: "json_object option \<Rightarrow> response store_prog" where
  "create_user user_data =
     try_except
       (case user_data of
          None \<Rightarrow> invalid_user_data
        | Some d \<Rightarrow>
            if d = [] \<or> map_of d ''name'' = None \<or> map_of d ''email'' = None then
              invalid_user_data
            else
              do_bind (getitem d ''name'') (\<lambda>name.
              do_seq (logger_info [Lit ''Creating user: '', Lit name])
             (do_seq (simulate_database_operation ''select_by_email'' (0.02, 0.05))
             (do_bind (getitem d ''email'') (\<lambda>email.
              do_bind (gets users) (\<lambda>us.
                case find (\<lambda>u. u_email u = email) us of
                  Some existing_user \<Rightarrow> email_exists email
                | None \<Rightarrow> save_user name email))))))
       (\<lambda>e. do_seq (logger_error (Lit ''Error creating user: '' # exn_str e))
            (do_seq count_error
                    (ret (jsonify_code (JDict [(''error'', JStr ''Internal server error'')]) 500))))"

definition get_users :: "response store_prog" where
  "get_users =
     do_seq (logger_info [Lit ''Fetching all users''])
    (do_bind (simulate_cache_operation ''all_users'' 0.7) (\<lambda>cache_hit.
     do_seq (if \<not> cache_hit then do_seq (simulate_database_operation ''select_all_users'' (0.04, 0.10)) (ret ())
             else ret ())
    (do_bind (gets users) (\<lambda>us.
     do_seq (logger_info [Lit ''Returning '', Dec (int (length us)), Lit '' users''])
            (ret (jsonify (JList (map user_json us))))))))"

text \<open>The route \<open>/api/users\<close> with methods GET and POST.\<close>

definition handle_users :: "string \<Rightarrow> json_object option \<Rightarrow> response store_prog" where
  "handle_users request_method request_json =
     do_seq (logger_info [Lit ''Users API accessed via '', Lit request_method])
    (do_seq count_request
            (if request_method = ''POST'' then create_user request_json else get_users))"

subsection \<open>Orders\<close>

definition item_json :: "item \<Rightarrow> jval" where
  "item_json i = JDict
     [(''product_id'', JInt (i_product_id i)),
      (''name'', JStr (i_name i)),
      (''price'', JNum (i_price i))]"

definition order_json :: "order \<Rightarrow> jval" where
  "order_json ord = JDict
     [(''id'', JInt (o_id ord)),
      (''user_id'', JInt (o_user_id ord)),
      (''user_name'', JStr (o_user_name ord)),
      (''items'', JList (map item_json (o_items ord))),
      (''total_amount'', JNum (o_total_amount ord)),
      (''status'', JStr (o_status ord)),
      (''created_at'', JTime (o_created_at ord))]"

text \<open>
  The body of an order request: a JSON object that may hold an integer under \<open>user_id\<close>
  and a list of integers under \<open>product_ids\<close>; \<open>None\<close> is an absent key.
\<close>

record order_data =
  user_id :: "int option"
  product_ids :: "int list option"

text \<open>
  The loop \<open>for product_id in order_data['product_ids']\<close> with the running
  \<open>total_amount\<close> and \<open>order_items\<close>; \<open>continue\<close> is the recursive call on the rest.
\<close>

fun order_loop :: "int list \<Rightarrow> real \<times> item list \<Rightarrow> (real \<times> item list) store_prog" where
  "order_loop [] acc = ret acc"
| "order_loop (product_id # rest) acc =
     do_seq (logger_info [Lit ''Processing product '', Dec product_id])
    (do_bind (gets products) (\<lambda>ps.
       case find (\<lambda>p. p_id p = product_id) ps of
         None \<Rightarrow>
           do_seq (logger_warning [Lit ''Product '', Dec product_id, Lit '' not found''])
                  (order_loop rest acc)
       | Some product \<Rightarrow>
           do_seq (simulate_database_operation ''select_inventory'' default_range)
             (if p_stock product \<le> 0 then
                do_seq (logger_warning [Lit ''Product '', Dec product_id, Lit '' out of stock''])
                       (order_loop rest acc)
              else
                do_seq (process_business_logic ''pricing_calculation'' ''medium'')
                       (order_loop rest
                          (fst acc + p_price product,
                           snd acc @ [\<lparr>i_product_id = product_id, i_name = p_name product,
                                       i_price = p_price product\<rparr>])))))"

text \<open>
  \<open># Create order\<close> and \<open># Save order\<close>: the new dictionary with status \<open>pending\<close> is
  appended to \<open>orders\<close>. The handler keeps a reference to it; here that reference is the
  index the order has in the list, which is what the definition returns.
\<close>

definition save_order :: "int \<Rightarrow> user \<Rightarrow> item list \<Rightarrow> real \<Rightarrow> nat store_prog" where
  "save_order uid usr order_items total_amount =
     do_bind (gets orders) (\<lambda>os.
     do_bind time_time (\<lambda>now.
     let ord = \<lparr>o_id = int (length os) + 1, o_user_id = uid, o_user_name = u_name usr,
                o_items = order_items, o_total_amount = total_amount,
                o_status = ''pending'', o_created_at = now\<rparr>
     in do_seq (simulate_database_operation ''insert_order'' (0.1, 0.2))
       (do_bind (gets orders) (\<lambda>os'.
        do_seq (modify (\<lambda>s. s\<lparr>orders := orders s @ [ord]\<rparr>))
               (ret (length os'))))))"

text \<open>\<open>order['status'] = s\<close> on the order the handler holds.\<close>

definition set_order_status :: "nat \<Rightarrow> string \<Rightarrow> unit store_prog" where
  "set_order_status idx s =
     modify (\<lambda>t. t\<lparr>orders := (orders t)[idx := (orders t ! idx)\<lparr>o_status := s\<rparr>]\<rparr>)"

text \<open>\<open># Process payment simulation\<close>: the payment succeeds when the draw exceeds 0.1.\<close>

definition process_payment :: "nat \<Rightarrow> real \<Rightarrow> unit store_prog" where
  "process_payment idx total_amount =
     do_seq (logger_info [Lit ''Processing payment of $'', Flt total_amount])
    (do_bind (random_uniform 0.2 0.5) (\<lambda>d.
     do_seq (time_sleep d)
    (do_bind random_random (\<lambda>r.
       if r > 0.1 then
         do_seq (set_order_status idx ''paid'')
                (logger_info [Lit ''Payment processed successfully''])
       else
         do_seq (set_order_status idx ''payment_failed'')
        (do_seq (logger_error [Lit ''Payment failed''])
                count_error)))))"

text \<open>
  \<open>product = next(p for p in products if p['id'] == pid); product['stock'] -= 1\<close>:
  the first product with that identifier loses one unit; \<open>next\<close> without a default
  raises \<open>StopIteration\<close> when there is none.
\<close>

fun dec_first :: "int \<Rightarrow> product list \<Rightarrow> product list option" where
  "dec_first pid [] = None"
| "dec_first pid (p # ps) =
     (if p_id p = pid then Some (p\<lparr>p_stock := p_stock p - 1\<rparr> # ps)
      else map_option ((#) p) (dec_first pid ps))"

definition decrement_stock :: "int \<Rightarrow> unit store_prog" where
  "decrement_stock pid =
     do_bind (gets products) (\<lambda>ps.
       case dec_first pid ps of
         None \<Rightarrow> raise StopIteration
       | Some ps' \<Rightarrow> modify (\<lambda>s. s\<lparr>products := ps'\<rparr>))"

text \<open>The loop \<open>for item in order_items\<close> of \<open># Update inventory\<close>.\<close>

fun update_inventory :: "item list \<Rightarrow> unit store_prog" where
  "update_inventory [] = ret ()"
| "update_inventory (it # its) =
     do_seq (decrement_stock (i_product_id it)) (update_inventory its)"

text \<open>From \<open># Process each product\<close> to the end of the \<open>try\<close> block.\<close>

definition place_order :: "int \<Rightarrow> user \<Rightarrow> int list \<Rightarrow> response store_prog" where
  "place_order uid usr pids =
     do_bind (order_loop pids (0, [])) (\<lambda>acc.
     do_bind (save_order uid usr (snd acc) (fst acc)) (\<lambda>idx.
     do_seq (process_payment idx (fst acc))
    (do_seq (simulate_database_operation ''update_inventory'' default_range)
    (do_seq (update_inventory (snd acc))
    (do_bind (gets (\<lambda>s. orders s ! idx)) (\<lambda>ord.
     do_seq (logger_info [Lit ''Created order: '', Dec (o_id ord), Lit '' for user: '',
                          Lit (u_name usr)])
            (ret (jsonify_code (order_json ord) 201))))))))"

text \<open>
  \<open>create_order\<close>. \<open>order_data.get('user_id')\<close> is evaluated for the first log line,
  before the body is validated, and raises \<open>AttributeError\<close> when the body is \<open>None\<close>.
  An object that lacks one of the two keys fails the validation (the empty object lacks
  both).
\<close>

definition create_order :: "order_data option \<Rightarrow> response store_prog" where
  "create_order request_json =
     try_except
       (do_bind time_time (\<lambda>start_time.
          case request_json of
            None \<Rightarrow> raise (AttributeError [Lit ''NoneType object has no attribute get''])
          | Some od \<Rightarrow>
              do_seq (logger_info [Lit ''Creating order for user: '',
                                   (case user_id od of None \<Rightarrow> Lit ''None'' | Some n \<Rightarrow> Dec n)])
                (if user_id od = None \<or> product_ids od = None then
                   do_seq (logger_error [Lit ''Invalid order data''])
                          (ret (jsonify_code (JDict [(''error'', JStr ''Invalid order data'')]) 400))
                 else
                   do_seq (simulate_database_operation ''select_user_by_id'' default_range)
                  (do_bind (gets users) (\<lambda>us.
                     case find (\<lambda>u. u_id u = the (user_id od)) us of
                       None \<Rightarrow>
                         do_seq (logger_error [Lit ''User not found''])
                                (ret (jsonify_code (JDict [(''error'', JStr ''User not found'')]) 404))
                     | Some usr \<Rightarrow> place_order (the (user_id od)) usr (the (product_ids od)))))))
       (\<lambda>e. do_seq (logger_error (Lit ''Error creating order: '' # exn_str e))
            (do_seq count_error
                    (ret (jsonify_code (JDict [(''error'', JStr ''Internal server error'')]) 500))))"

subsection \<open>\<open>/health\<close>\<close>

definition metrics_json :: "metrics \<Rightarrow> jval" where
  "metrics_json m = JDict
     [(''total_requests'', JInt (total_requests m)),
      (''total_errors'', JInt (total_errors m)),
      (''response_times'', JList (map JNum (response_times m)))]"

definition store_health_check :: "response store_prog" where
  "store_health_check =
     do_seq (logger_info [Lit ''Health check requested''])
    (do_seq (simulate_database_operation ''health_check'' (0.01, 0.03))
    (do_bind (random_uniform 0.005 0.015) (\<lambda>d.
     do_seq (time_sleep d)
    (do_seq (logger_info [Lit ''Cache health check passed''])
    (do_bind (gets app_metrics) (\<lambda>m.
     do_bind time_time (\<lambda>now.
       ret (jsonify (JDict
         [(''status'', JStr ''healthy''),
          (''timestamp'', JTime now),
          (''version'', JStr ''1.0.0''),
          (''metrics'', metrics_json m)])))))))))"

subsection \<open>The service as a whole\<close>

text \<open>
  The requests that change or read the lists, and the states the service is in between
  requests when it handles them one after another, each from start to end before the
  next: the state at start, and any state a whole request leads to from one of those.
  The remaining routes (\<open>/\<close>, \<open>/api/external-service\<close>, \<open>/metrics\<close>) touch nothing but
  \<open>app_metrics\<close>; the rule \<open>other\<close> stands for them. The server itself gives each request
  a thread of its own; the states it passes through while requests overlap are not
  among these.
\<close>

datatype request =
    Users_api string "json_object option"
  | Orders_api "order_data option"
  | Health_api

fun serve :: "request \<Rightarrow> response store_prog" where
  "serve (Users_api request_method request_json) = handle_users request_method request_json"
| "serve (Orders_api request_json) = create_order request_json"
| "serve Health_api = store_health_check"

inductive serial :: "store world \<Rightarrow> bool" where
  start: "st w = st store_start \<Longrightarrow> serial w"
| request: "serial w \<Longrightarrow> serve rq w = (res, w') \<Longrightarrow> serial w'"
| other: "serial w \<Longrightarrow> st w' = (st w)\<lparr>app_metrics := m\<rparr> \<Longrightarrow> serial w'"

section \<open>The traced shop (\<open>local-deployment/app/app-without-instrumentation.py\<close>)\<close>

text \<open>
  The same service with tracing spans written by hand. Its
  \<open>simulate_database_operation\<close> reports to its span and writes no log line.
\<close>

definition traced_simulate_database_operation :: "string \<Rightarrow> real \<times> real \<Rightarrow> ('s, real) prog" where
  "traced_simulate_database_operation operation_type duration_range =
     with_span [Lit ''database_'', Lit operation_type]
      (do_seq (span_set_attribute ''db.operation'' (JStr operation_type))
      (do_seq (span_set_attribute ''db.name'' (JStr ''demo_db''))
      (do_seq (span_add_event [Lit ''Starting '', Lit operation_type, Lit '' operation''])
      (do_bind (random_uniform (fst duration_range) (snd duration_range)) (\<lambda>duration.
       do_seq (time_sleep duration)
      (do_seq (span_set_attribute ''db.duration_ms'' (JNum (duration * 1000)))
      (do_seq (span_add_event [Lit ''Completed '', Lit operation_type, Lit '' operation''])
              (ret duration))))))))"

section \<open>Vocabulary of the statements\<close>

text \<open>A product can be bought: the first product with that identifier exists and its stock is positive.\<close>

definition available :: "product list \<Rightarrow> int \<Rightarrow> bool" where
  "available ps pid = (case find (\<lambda>p. p_id p = pid) ps of None \<Rightarrow> False | Some p \<Rightarrow> 0 < p_stock p)"

text \<open>The line item an order holds for a product it bought.\<close>

definition line_item :: "product list \<Rightarrow> int \<Rightarrow> item" where
  "line_item ps pid =
     (case find (\<lambda>p. p_id p = pid) ps of
        None \<Rightarrow> \<lparr>i_product_id = pid, i_name = [], i_price = 0\<rparr>
      | Some p \<Rightarrow> \<lparr>i_product_id = pid, i_name = p_name p, i_price = p_price p\<rparr>)"

text \<open>The line items of an order for the requested identifiers: those that can be bought, in the order requested.\<close>

definition ordered :: "product list \<Rightarrow> int list \<Rightarrow> item list" where
  "ordered ps pids = map (line_item ps) (filter (available ps) pids)"

text \<open>One unit less of the product with the given identifier.\<close>

definition dec_by :: "int \<Rightarrow> product \<Rightarrow> product" where
  "dec_by pid p = (if p_id p = pid then p\<lparr>p_stock := p_stock p - 1\<rparr> else p)"

text \<open>A product after the line items of an order that reference it are taken from its stock.\<close>

definition sold :: "item list \<Rightarrow> product \<Rightarrow> product" where
  "sold its p = p\<lparr>p_stock := p_stock p - int (count_list (map i_product_id its) (p_id p))\<rparr>"

text \<open>The body of a user request has no value under a key.\<close>

definition lacks :: "json_object option \<Rightarrow> string \<Rightarrow> bool" where
  "lacks data k = (case data of None \<Rightarrow> True | Some d \<Rightarrow> map_of d k = None)"

text \<open>The value a body holds under a key.\<close>

definition entry :: "json_object option \<Rightarrow> string \<Rightarrow> string" where
  "entry data k = (case data of None \<Rightarrow> [] | Some d \<Rightarrow> (case map_of d k of None \<Rightarrow> [] | Some v \<Rightarrow> v))"

text \<open>An order whose payment step has run.\<close>

definition settled :: "order \<Rightarrow> bool" where
  "settled ord = (o_status ord = ''paid'' \<or> o_status ord = ''payment_failed'')"

text \<open>The users carry the identifiers 1, 2, 3, ... in the order of the list.\<close>

definition numbered :: "user list \<Rightarrow> bool" where
  "numbered us = (map u_id us = map int [1..<Suc (length us)])"

text \<open>
  The duration \<open>simulate_database_operation\<close> samples from a range in a given process:
  \<open>random.uniform\<close> applied to the next random draw.
\<close>

definition sampled :: "real \<times> real \<Rightarrow> 's world \<Rightarrow> real" where
  "sampled rng w = fst rng + (snd rng - fst rng) * Rep_rnd (rand w (rand_pos w))"


subsection \<open>Sample inputs\<close>

definition ann :: json_object where
  "ann = [(''name'', ''Ann''), (''email'', ''ann@example.com'')]"

definition shop_example :: "store world" where
  "shop_example =
     \<lparr>st = \<lparr>users = [\<lparr>u_id = 1, u_name = ''Ann'', u_email = ''ann@example.com'',
                      u_created_at = 0, u_status = ''active''\<rparr>],
             orders = [],
             products =
               [\<lparr>p_id = 1, p_name = ''Laptop'', p_price = 999.99, p_stock = 10\<rparr>,
                \<lparr>p_id = 2, p_name = ''Phone'', p_price = 699.99, p_stock = 0\<rparr>],
             app_metrics = \<lparr>total_requests = 1, total_errors = 0, response_times = []\<rparr>\<rparr>,
      clock = 0, trace = [], rand = (\<lambda>n. Abs_rnd 0), rand_pos = 0,
      sleep_max = Abs_pause 86400\<rparr>"

definition order_example :: order_data where
  "order_example = \<lparr>user_id = Some 1, product_ids = Some [1, 2, 7, 1]\<rparr>"

text \<open>
  The same shop while a request of Ann for no product is in flight: the request has
  appended its order and has not yet run its payment step.
\<close>

definition payment_pending :: "store world" where
  "payment_pending =
     snd (save_order 1 \<lparr>u_id = 1, u_name = ''Ann'', u_email = ''ann@example.com'',
                         u_created_at = 0, u_status = ''active''\<rparr> [] 0 shop_example)"

text \<open>
  The shop after two requests on a fresh process: Ann is created, then an order of hers
  for the products 1, 2, 7 and 1 is placed.
\<close>

definition paid_some :: "store world" where
  "paid_some = snd (serve (Orders_api (Some order_example))
                 (snd (serve (Users_api ''POST'' (Some ann)) store_start)))"

section \<open>Parallel callers of \<open>create_user\<close>\<close>

text \<open>
  The server handles each request in a thread of its own, and \<open>create_user\<close> holds no
  lock. A thread gives way to the others wherever it sleeps, and \<open>create_user\<close> sleeps
  (in \<open>simulate_database_operation\<close>) before it looks for the email, and again between
  building the user dictionary, whose \<open>id\<close> is \<open>len(users) + 1\<close>, and appending it. So a
  request passes through three states: it has arrived; it holds the user it built and
  has not appended it; it is answered. \<open>advance\<close> takes a request from one state to the
  next on the shared list: the first step is the validation, the search for the email
  and the construction of the user, the second is \<open>users.append(user)\<close>.
\<close>

datatype job = Arrived "json_object option" | Holding user | Answered nat

fun advance :: "real \<Rightarrow> job \<Rightarrow> user list \<Rightarrow> job \<times> user list" where
  "advance now (Arrived user_data) us =
     (case user_data of
        None \<Rightarrow> (Answered 400, us)
      | Some d \<Rightarrow>
          if d = [] \<or> map_of d ''name'' = None \<or> map_of d ''email'' = None then (Answered 400, us)
          else (case find (\<lambda>u. u_email u = entry user_data ''email'') us of
                  Some existing_user \<Rightarrow> (Answered 409, us)
                | None \<Rightarrow>
                    (Holding \<lparr>u_id = int (length us) + 1, u_name = entry user_data ''name'',
                              u_email = entry user_data ''email'', u_created_at = now,
                              u_status = ''active''\<rparr>, us)))"
| "advance now (Holding usr) us = (Answered 201, us @ [usr])"
| "advance now (Answered c) us = (Answered c, us)"

text \<open>
  A schedule names, step by step, the thread that moves next (and the time it reads);
  \<open>run\<close> plays a schedule on the requests in flight and the shared list.
\<close>

fun run :: "(nat \<times> real) list \<Rightarrow> job list \<times> user list \<Rightarrow> job list \<times> user list" where
  "run [] c = c"
| "run ((i, now) # sched) (jobs, us) =
     (if i < length jobs
      then (case advance now (jobs ! i) us of (j, us') \<Rightarrow> run sched (jobs[i := j], us'))
      else run sched (jobs, us))"

fun answered :: "job \<Rightarrow> bool" where
  "answered (Answered c) = True"
| "answered _ = False"

text \<open>One request with nothing else in flight.\<close>

definition alone :: "real \<Rightarrow> json_object option \<Rightarrow> user list \<Rightarrow> job list \<times> user list" where
  "alone now user_data us = run [(0, now), (0, now)] ([Arrived user_data], us)"

text \<open>
  Requests in flight that have all just arrived; a body that passes the validation, and
  its email.
\<close>

definition crowd :: "json_object list \<Rightarrow> job list" where
  "crowd bodies = map (\<lambda>b. Arrived (Some b)) bodies"

definition well_formed :: "json_object \<Rightarrow> bool" where
  "well_formed d = (map_of d ''name'' \<noteq> None \<and> map_of d ''email'' \<noteq> None)"

definition email_of :: "json_object \<Rightarrow> string" where
  "email_of d = entry (Some d) ''email''"

text \<open>
  Two schedules for \<open>n\<close> requests: every thread takes its first step before any takes its
  second; and each thread finishes before the next starts.
\<close>

definition sweep :: "nat \<Rightarrow> (nat \<times> real) list" where
  "sweep n = map (\<lambda>i. (i, 0)) [0..<n]"

definition in_turn :: "nat \<Rightarrow> (nat \<times> real) list" where
  "in_turn n = concat (map (\<lambda>i. [(i, 0), (i, 0)]) [0..<n])"

text \<open>The body of the \<open>k\<close>-th of many callers, each with a name and an email of its own.\<close>

definition caller :: "nat \<Rightarrow> json_object" where
  "caller k = [(''name'', replicate (Suc k) CHR ''n''), (''email'', replicate (Suc k) CHR ''e'')]"

text \<open>The user a request builds when it finds \<open>n\<close> users in the list (at time 0).\<close>

definition fresh_user :: "nat \<Rightarrow> json_object \<Rightarrow> user" where
  "fresh_user n d = \<lparr>u_id = int n + 1, u_name = entry (Some d) ''name'',
                     u_email = entry (Some d) ''email'', u_created_at = 0, u_status = ''active''\<rparr>"

text \<open>
  What a request from a given body can have become: it has arrived, it holds a user
  with the body's email, or it is answered with 201.
\<close>

definition tracks :: "json_object \<Rightarrow> job \<Rightarrow> bool" where
  "tracks d j = (j = Arrived (Some d) \<or> (\<exists>u. j = Holding u \<and> u_email u = email_of d) \<or> j = Answered 201)"

section \<open>Reasoning about handlers\<close>

text \<open>
  \<open>post m w Q\<close>: run from \<open>w\<close>, the program \<open>m\<close> returns normally, with a result and
  an application state that satisfy \<open>Q\<close>.
\<close>

definition post :: "('s, 'a) prog \<Rightarrow> 's world \<Rightarrow> ('a \<Rightarrow> 's \<Rightarrow> bool) \<Rightarrow> bool" where
  "post m w Q = (\<exists>a w'. m w = (Inr a, w') \<and> Q a (st w'))"


text \<open>The response a handler gives, if it returns one.\<close>

definition replied :: "('s, response) prog \<Rightarrow> 's world \<Rightarrow> response option" where
  "replied m w = (case fst (m w) of Inl e \<Rightarrow> None | Inr r \<Rightarrow> Some r)"

subsection \<open>Rules for the primitives\<close>

lemmas run_defs = do_bind_def do_seq_def try_except_def ret_def raise_def emit_def
  logger_info_def logger_warning_def logger_error_def time_time_def

lemmas dispatch_defs = dispatch_def before_request_def after_request_def gets_def


lemma rnd_bounds: "0 \<le> Rep_rnd r" "Rep_rnd r < 1"
  using Rep_rnd[of r] by auto

lemma post_ret: "Q a (st w) \<Longrightarrow> post (ret a) w Q"
  by (simp add: post_def ret_def)

lemma post_bind:
  "post m w (\<lambda>a s. \<forall>w'. st w' = s \<longrightarrow> post (f a) w' Q) \<Longrightarrow> post (do_bind m f) w Q"
  by (auto simp: post_def do_bind_def)

lemma post_seq:
  "post m w (\<lambda>a s. \<forall>w'. st w' = s \<longrightarrow> post k w' Q) \<Longrightarrow> post (do_seq m k) w Q"
  by (simp add: do_seq_def post_bind)

lemma post_try: "post m w Q \<Longrightarrow> post (try_except m h) w Q"
  by (auto simp: post_def try_except_def)

lemma post_emit: "Q () (st w) \<Longrightarrow> post (emit ev) w Q"
  by (simp add: post_def emit_def)

lemma post_info: "Q () (st w) \<Longrightarrow> post (logger_info m) w Q"
  by (simp add: logger_info_def post_emit)

lemma post_warning: "Q () (st w) \<Longrightarrow> post (logger_warning m) w Q"
  by (simp add: logger_warning_def post_emit)

lemma post_error: "Q () (st w) \<Longrightarrow> post (logger_error m) w Q"
  by (simp add: logger_error_def post_emit)

lemma pause_bounds: "86400 \<le> Rep_pause p" "Rep_pause p * 10 ^ 9 < 2 ^ 63"
  using Rep_pause[of p] by auto

lemma Rep_pause_day: "Rep_pause (Abs_pause 86400) = 86400"
  by (simp add: Abs_pause_inverse)

lemmas sleep_defs = time_sleep_def time_sleep_int_def sleep_seconds_def

lemma sleep_seconds_accepted:
  assumes "0 \<le> d" "d \<le> Rep_pause (sleep_max w)"
  shows "sleep_seconds m d w = (Inr (), w\<lparr>clock := clock w + d, trace := trace w @ [Sleep d]\<rparr>)"
proof -
  have "d * 10 ^ 9 \<le> Rep_pause (sleep_max w) * 10 ^ 9"
    using assms(2) by simp
  then have "d * 10 ^ 9 < 2 ^ 63"
    using pause_bounds(2)[of "sleep_max w"] by linarith
  then show ?thesis
    using assms by (simp add: sleep_seconds_def)
qed

lemma sleep_accepted:
  assumes "0 \<le> d" "d \<le> Rep_pause (sleep_max w)"
  shows "time_sleep d w = (Inr (), w\<lparr>clock := clock w + d, trace := trace w @ [Sleep d]\<rparr>)"
  unfolding time_sleep_def using assms by (rule sleep_seconds_accepted)


lemma sleep_short:
  assumes "0 \<le> d" "d \<le> 86400"
  shows "time_sleep d w = (Inr (), w\<lparr>clock := clock w + d, trace := trace w @ [Sleep d]\<rparr>)"
  using assms pause_bounds(1)[of "sleep_max w"] by (intro sleep_accepted) auto

lemma post_sleep: "0 \<le> d \<Longrightarrow> d \<le> 86400 \<Longrightarrow> Q () (st w) \<Longrightarrow> post (time_sleep d) w Q"
  by (simp add: post_def sleep_short)

lemma post_time: "(\<And>t. Q t (st w)) \<Longrightarrow> post time_time w Q"
  by (simp add: post_def time_time_def)

lemma post_random: "(\<And>r. 0 \<le> r \<Longrightarrow> r < 1 \<Longrightarrow> Q r (st w)) \<Longrightarrow> post random_random w Q"
  by (simp add: post_def random_random_def rnd_bounds)

lemma uniform_bounds:
  fixes a b r :: real
  assumes "a \<le> b" "0 \<le> r" "r < 1"
  shows "a \<le> a + (b - a) * r" "a + (b - a) * r \<le> b"
proof -
  show "a \<le> a + (b - a) * r" using assms by simp
  have "(b - a) * r \<le> (b - a) * 1" using assms by (intro mult_left_mono) auto
  then show "a + (b - a) * r \<le> b" by simp
qed

lemma post_uniform:
  "a \<le> b \<Longrightarrow> (\<And>d. a \<le> d \<Longrightarrow> d \<le> b \<Longrightarrow> Q d (st w)) \<Longrightarrow> post (random_uniform a b) w Q"
  by (simp add: post_def random_uniform_def random_random_def do_bind_def ret_def
      uniform_bounds rnd_bounds)

lemma post_gets: "Q (f (st w)) (st w) \<Longrightarrow> post (gets f) w Q"
  by (simp add: post_def gets_def)

lemma post_modify: "Q () (f (st w)) \<Longrightarrow> post (modify f) w Q"
  by (simp add: post_def modify_def)

lemma post_pause:
  "0 \<le> a \<Longrightarrow> a \<le> b \<Longrightarrow> b \<le> 86400 \<Longrightarrow> (\<And>w'. st w' = st w \<Longrightarrow> post k w' Q)
   \<Longrightarrow> post (do_bind (random_uniform a b) (\<lambda>d. do_seq (time_sleep d) k)) w Q"
  by (rule post_bind, rule post_uniform, simp, intro allI impI, rule post_seq, rule post_sleep) auto

lemma post_sdo:
  "0 \<le> fst rng \<Longrightarrow> fst rng \<le> snd rng \<Longrightarrow> snd rng \<le> 86400
   \<Longrightarrow> (\<And>d. fst rng \<le> d \<Longrightarrow> d \<le> snd rng \<Longrightarrow> Q d (st w))
   \<Longrightarrow> post (simulate_database_operation op rng) w Q"
  unfolding simulate_database_operation_def
  apply (rule post_seq, rule post_info, intro allI impI)
  apply (rule post_bind, rule post_uniform, assumption, intro allI impI)
  apply (rule post_seq, rule post_sleep, simp, simp, intro allI impI)
  apply (rule post_seq, rule post_info, intro allI impI)
  apply (rule post_ret)
  apply simp
  done

lemma post_mono: "post m w P \<Longrightarrow> (\<And>a s. P a s \<Longrightarrow> Q a s) \<Longrightarrow> post m w Q"
  by (auto simp: post_def)

subsection \<open>Health checks\<close>

lemma health_store:
  "post store_health_check w (\<lambda>r s. s = st w \<and> status_code r = 200
      \<and> field (body r) ''status'' = Some (JStr ''healthy'')
      \<and> (\<exists>t. field (body r) ''timestamp'' = Some (JTime t)))"
  unfolding store_health_check_def
  apply (rule post_seq, rule post_info, intro allI impI)
  apply (rule post_seq, rule post_sdo, simp, simp, simp, intro allI impI)
  apply (rule post_pause, simp, simp, simp)
  apply (rule post_seq, rule post_info, intro allI impI)
  apply (rule post_bind, rule post_gets, intro allI impI)
  apply (rule post_bind, rule post_time, intro allI impI)
  apply (rule post_ret)
  apply (simp add: jsonify_def)
  done

lemma health_cloud:
  "\<exists>w'. get_health w = (Inr \<lparr>status_code = 200, body = JDict
      [(''status'', JStr ''healthy''),
       (''timestamp'', JTime (clock w)),
       (''dynatrace_agent_path'',
          JStr (case environ (st w) ''DT_AGENTPATH'' of None \<Rightarrow> ''Not set'' | Some p \<Rightarrow> p)),
       (''service'', JStr ''dynatrace-test-app'')]\<rparr>, w')"
  by (simp add: get_health_def dispatch_defs returning_def health_check_def run_defs jsonify_code_def)

lemma health_demo:
  "demo_health w = (Inr \<lparr>status_code = 200, body = JDict
      [(''status'', JStr ''healthy''), (''timestamp'', JTime (clock w))]\<rparr>, w)"
  by (simp add: demo_health_def run_defs jsonify_def)

text \<open>
  C8. Every GET request to a health endpoint is answered with status 200 and a JSON body
  whose field \<open>status\<close> is \<open>healthy\<close> and which has a field \<open>timestamp\<close>: in
  \<open>app.py\<close> (\<open>health_check\<close> behind its route), in \<open>app-demo/app.py\<close> (\<open>health\<close>) and
  in the in-memory shop (\<open>health_check\<close>, whose simulated database and cache checks
  never fail).
\<close>

theorem health_endpoints:
  "(\<exists>r w'. get_health w1 = (Inr r, w') \<and> status_code r = 200
        \<and> field (body r) ''status'' = Some (JStr ''healthy'')
        \<and> field (body r) ''timestamp'' = Some (JTime (clock w1)))
   \<and> (\<exists>r w'. demo_health w2 = (Inr r, w') \<and> status_code r = 200
        \<and> field (body r) ''status'' = Some (JStr ''healthy'')
        \<and> field (body r) ''timestamp'' = Some (JTime (clock w2)))
   \<and> (\<exists>r w' t. store_health_check w3 = (Inr r, w') \<and> status_code r = 200
        \<and> field (body r) ''status'' = Some (JStr ''healthy'')
        \<and> field (body r) ''timestamp'' = Some (JTime t))"
proof (intro conjI)
  show "\<exists>r w'. get_health w1 = (Inr r, w') \<and> status_code r = 200
        \<and> field (body r) ''status'' = Some (JStr ''healthy'')
        \<and> field (body r) ''timestamp'' = Some (JTime (clock w1))"
    using health_cloud[of w1] by auto
  show "\<exists>r w'. demo_health w2 = (Inr r, w') \<and> status_code r = 200
        \<and> field (body r) ''status'' = Some (JStr ''healthy'')
        \<and> field (body r) ''timestamp'' = Some (JTime (clock w2))"
    by (simp add: health_demo)
  show "\<exists>r w' t. store_health_check w3 = (Inr r, w') \<and> status_code r = 200
        \<and> field (body r) ''status'' = Some (JStr ''healthy'')
        \<and> field (body r) ''timestamp'' = Some (JTime t)"
    using health_store[of w3] by (auto simp: post_def)
qed

subsection \<open>The CPU-intensive route\<close>

lemma sum_squares_below:
  "0 \<le> n \<Longrightarrow> 6 * (\<Sum>k = 0..<n. k ^ 2) = n * (n - 1) * (2 * n - 1)" for n :: int
proof (induction n rule: int_ge_induct)
  case base
  show ?case by simp
next
  case (step i)
  have "{0..<i + 1} = insert i {0..<i}" using step.hyps by auto
  then have "(\<Sum>k = 0..<i + 1. k ^ 2) = i ^ 2 + (\<Sum>k = 0..<i. k ^ 2)" by simp
  with step.IH show ?case by (simp add: algebra_simps power2_eq_square)
qed

lemma cpu_loop_sum:
  "i \<le> n \<Longrightarrow> \<exists>w'. cpu_loop i n r w = (Inr (r + (\<Sum>k = i..<n. k ^ 2)), w')"
proof (induction i n r arbitrary: w rule: cpu_loop.induct)
  case (1 i n r)
  show ?case
  proof (cases "i < n")
    case False
    with "1.prems" have "i = n" by simp
    then show ?thesis by (subst cpu_loop.simps) (simp add: ret_def)
  next
    case True
    have split: "{i..<n} = insert i {i + 1..<n}" using True by auto
    have s: "(\<Sum>k = i..<n. k ^ 2) = i ^ 2 + (\<Sum>k = i + 1..<n. k ^ 2)"
      by (subst split) simp
    show ?thesis
    proof (cases "i mod 10000 = 0")
      case z: True
      obtain w1 where w1: "time_sleep 0.001 w = (Inr (), w1)"
        by (simp add: sleep_short)
      from "1.IH"(1)[OF True z, of w1] True
      obtain w' where "cpu_loop (i + 1) n (r + i ^ 2) w1 = (Inr (r + i ^ 2 + (\<Sum>k = i + 1..<n. k ^ 2)), w')"
        by auto
      with True z w1 s show ?thesis
        by (subst cpu_loop.simps) (simp add: do_seq_def do_bind_def)
    next
      case nz: False
      from "1.IH"(2)[OF True nz, of w] True
      obtain w' where "cpu_loop (i + 1) n (r + i ^ 2) w = (Inr (r + i ^ 2 + (\<Sum>k = i + 1..<n. k ^ 2)), w')"
        by auto
      with True nz s show ?thesis
        by (subst cpu_loop.simps) simp
    qed
  qed
qed

lemma int_arg_world: "snd (int_arg args k d w) = w"
  by (simp add: int_arg_def int_of_def ret_def split: option.splits)

lemma int_arg_any: "int_arg args k d w' = (fst (int_arg args k d w), w')"
  by (simp add: int_arg_def int_of_def ret_def split: option.splits)

text \<open>
  C9. A GET request to \<open>/cpu-intensive\<close> whose \<open>iterations\<close> parameter (or its default,
  100000) reads as an integer \<open>n \<ge> 0\<close> is answered with status 200; the field \<open>result\<close>
  of the body is the sum of \<open>i\<^sup>2\<close> for \<open>i\<close> from 0 to \<open>n - 1\<close>, which is
  \<open>n (n - 1) (2 n - 1) / 6\<close> in exact integer arithmetic, and the field \<open>iterations\<close> is \<open>n\<close>.
\<close>

theorem cpu_intensive_sum_of_squares:
  assumes arg: "fst (int_arg args ''iterations'' 100000 w) = Inr n" and n: "0 \<le> n"
  shows "\<exists>r w'. get_cpu_intensive args w = (Inr r, w')
           \<and> status_code r = 200
           \<and> field (body r) ''result'' = Some (JInt (\<Sum>k = 0..<n. k ^ 2))
           \<and> (\<Sum>k = 0..<n. k ^ 2) = n * (n - 1) * (2 * n - 1) div 6
           \<and> field (body r) ''iterations'' = Some (JInt n)"
proof -
  let ?w0 = "w\<lparr>trace := trace w @ [Log INFO [Lit ''Request: '', Lit ''GET'', Lit '' '',
               Lit ''/cpu-intensive'', Lit '' from '', Lit (remote_addr (st w))]]\<rparr>"
  let ?w1 = "?w0\<lparr>trace := trace ?w0 @ [Log INFO [Lit ''Starting CPU intensive task with '', Dec n, Lit '' iterations'']]\<rparr>"
  have a: "int_arg args ''iterations'' 100000 ?w0 = (Inr n, ?w0)"
    using arg int_arg_any[of args "''iterations''" 100000 ?w0 w] by simp
  obtain w2 where l: "cpu_loop 0 n 0 ?w1 = (Inr (\<Sum>k = 0..<n. k ^ 2), w2)"
    using cpu_loop_sum[OF n, of 0 ?w1] by auto
  have "6 * (\<Sum>k = 0..<n. k ^ 2) = n * (n - 1) * (2 * n - 1)"
    using n by (rule sum_squares_below)
  then have f: "(\<Sum>k = 0..<n. k ^ 2) = n * (n - 1) * (2 * n - 1) div 6" by presburger
  have "\<exists>r w'. get_cpu_intensive args w = (Inr r, w')
           \<and> status_code r = 200
           \<and> field (body r) ''result'' = Some (JInt (\<Sum>k = 0..<n. k ^ 2))
           \<and> field (body r) ''iterations'' = Some (JInt n)"
    using a l
    by (simp add: get_cpu_intensive_def dispatch_defs returning_def cpu_intensive_def
        try_except_def do_bind_def do_seq_def time_time_def logger_info_def emit_def ret_def
        jsonify_def)
  with f show ?thesis by blast
qed

text \<open>The request \<open>/cpu-intensive?iterations=4\<close>: 0 + 1 + 4 + 9 = 14.\<close>

theorem cpu_intensive_sum_of_squares_witness:
  "fst (int_arg [(''iterations'', ''4'')] ''iterations'' 100000 cloud_start) = Inr 4
   \<and> (0::int) \<le> 4
   \<and> (\<exists>r w'. get_cpu_intensive [(''iterations'', ''4'')] cloud_start = (Inr r, w')
         \<and> field (body r) ''result'' = Some (JInt 14)
         \<and> field (body r) ''iterations'' = Some (JInt 4))"
proof -
  have a: "fst (int_arg [(''iterations'', ''4'')] ''iterations'' 100000 cloud_start) = Inr 4"
    by (simp add: int_arg_def int_of_def py_int_def strip_def is_space_def digits_def
        in_number_def is_digit_def digit_val_def)
  from cpu_intensive_sum_of_squares[OF a] a show ?thesis by auto
qed

subsection \<open>The error-simulation route\<close>

text \<open>
  C1, as the code has it. A GET request to \<open>/error-test\<close> whose \<open>type\<close> is \<open>http_error\<close>,
  \<open>exception\<close> or \<open>db_error\<close> is answered with status 500. For \<open>http_error\<close> the body has
  the field \<open>error_type\<close> with value \<open>http_error\<close>, for \<open>db_error\<close> with value
  \<open>database_error\<close>; neither body has a field \<open>type\<close>. For \<open>exception\<close> the view raises
  \<open>ValueError\<close> and the body, written by the handler for uncaught exceptions, has no
  field \<open>error_type\<close>; it names the exception class in its field \<open>type\<close>.
\<close>

theorem error_test_modes:
  assumes "map_of args ''type'' = Some mode"
    and "mode = ''http_error'' \<or> mode = ''exception'' \<or> mode = ''db_error''"
  shows "\<exists>r w'. get_error_test args w = (Inr r, w') \<and> status_code r = 500
           \<and> field (body r) ''error_type'' =
               (if mode = ''http_error'' then Some (JStr ''http_error'')
                else if mode = ''db_error'' then Some (JStr ''database_error'')
                else None)
           \<and> (if mode = ''exception'' then field (body r) ''type'' = Some (JStr ''ValueError'')
               else field (body r) ''type'' = None)"
  using assms
  by (auto simp: get_error_test_def dispatch_defs error_test_def handle_exception_def
      select_all_from_def schema_def run_defs jsonify_code_def)

text \<open>The request \<open>/error-test?type=db_error\<close> on a fresh process.\<close>

theorem error_test_modes_witness:
  "map_of [(''type'', ''db_error'')] ''type'' = Some ''db_error''
   \<and> (\<exists>r w'. get_error_test [(''type'', ''db_error'')] cloud_start = (Inr r, w')
         \<and> status_code r = 500
         \<and> field (body r) ''error_type'' = Some (JStr ''database_error''))"
  using error_test_modes[of "[(''type'', ''db_error'')]" "''db_error''" cloud_start] by auto

text \<open>
  The request \<open>/error-test?type=exception\<close> on a fresh process: the whole response, and
  the look-up of \<open>error_type\<close> in its body.
\<close>

theorem error_test_exception_counterexample:
  "replied (get_error_test [(''type'', ''exception'')]) cloud_start =
     Some \<lparr>status_code = 500, body = JDict
       [(''error'', JStr ''Application error''),
        (''type'', JStr ''ValueError''),
        (''message'', JText [Lit ''This is a test exception for Dynatrace monitoring'']),
        (''timestamp'', JTime 0)]\<rparr>
   \<and> field (JDict
       [(''error'', JStr ''Application error''),
        (''type'', JStr ''ValueError''),
        (''message'', JText [Lit ''This is a test exception for Dynatrace monitoring'']),
        (''timestamp'', JTime 0)]) ''error_type'' = None"
  by (simp add: replied_def get_error_test_def dispatch_defs error_test_def handle_exception_def
      run_defs jsonify_code_def cloud_start_def)

subsection \<open>The in-memory shop\<close>

lemmas post_rules = post_ret post_bind post_seq post_try post_info post_warning post_error
  post_time post_gets post_modify post_uniform post_sleep post_sdo post_random

lemma post_count_error:
  "Q () ((st w)\<lparr>app_metrics := (app_metrics (st w))\<lparr>total_errors := total_errors (app_metrics (st w)) + 1\<rparr>\<rparr>)
   \<Longrightarrow> post count_error w Q"
  unfolding count_error_def by (rule post_modify)

lemma post_count_request:
  "Q () ((st w)\<lparr>app_metrics := (app_metrics (st w))\<lparr>total_requests := total_requests (app_metrics (st w)) + 1\<rparr>\<rparr>)
   \<Longrightarrow> post count_request w Q"
  unfolding count_request_def by (rule post_modify)

lemma post_getitem: "map_of d k = Some v \<Longrightarrow> Q v (st w) \<Longrightarrow> post (getitem d k) w Q"
  by (simp add: getitem_def post_ret)

lemma post_wait:
  "0 \<le> a \<Longrightarrow> a \<le> b \<Longrightarrow> b \<le> 86400 \<Longrightarrow> (\<And>w'. st w' = st w \<Longrightarrow> post k w' Q)
   \<Longrightarrow> post (do_bind (random_uniform a b) (\<lambda>d. do_seq (time_sleep d) k)) w Q"
  by (rule post_pause)

lemma invalid_user_data_post:
  "post invalid_user_data w (\<lambda>r s. status_code r = 400 \<and> users s = users (st w)
      \<and> orders s = orders (st w) \<and> products s = products (st w))"
  unfolding invalid_user_data_def
  by (intro post_rules post_count_error allI impI) (simp add: jsonify_code_def)

lemma email_exists_post:
  "post (email_exists e) w (\<lambda>r s. status_code r = 409 \<and> users s = users (st w)
      \<and> orders s = orders (st w) \<and> products s = products (st w))"
  unfolding email_exists_def
  by (intro post_rules post_count_error allI impI) (simp add: jsonify_code_def)

lemma save_user_post:
  "post (save_user n e) w (\<lambda>r s. status_code r = 201 \<and>
      (\<exists>u. users s = users (st w) @ [u] \<and> body r = user_json u \<and> u_name u = n \<and> u_email u = e
           \<and> u_id u = int (length (users (st w))) + 1 \<and> u_status u = ''active'')
      \<and> orders s = orders (st w) \<and> products s = products (st w))"
  unfolding save_user_def Let_def
  by (intro post_rules allI impI) (simp_all add: jsonify_code_def)

lemma create_user_post:
  "post (create_user data) w (\<lambda>r s.
     orders s = orders (st w) \<and> products s = products (st w) \<and>
    (case data of
       None \<Rightarrow> status_code r = 400 \<and> users s = users (st w)
     | Some d \<Rightarrow>
        (case (map_of d ''name'', map_of d ''email'') of
           (Some n, Some e) \<Rightarrow>
             if e \<in> u_email ` set (users (st w))
             then status_code r = 409 \<and> users s = users (st w)
             else status_code r = 201 \<and>
               (\<exists>u. users s = users (st w) @ [u] \<and> body r = user_json u \<and> u_name u = n
                    \<and> u_email u = e \<and> u_id u = int (length (users (st w))) + 1
                    \<and> u_status u = ''active'')
         | _ \<Rightarrow> status_code r = 400 \<and> users s = users (st w))))"
proof (cases data)
  case None
  then show ?thesis
    unfolding create_user_def
    by (auto intro!: post_try post_mono[OF invalid_user_data_post])
next
  case (Some d)
  show ?thesis
  proof (cases "map_of d ''name'' = None \<or> map_of d ''email'' = None")
    case True
    then have "d = [] \<or> map_of d ''name'' = None \<or> map_of d ''email'' = None" by simp
    with Some True show ?thesis
      unfolding create_user_def
      by (auto intro!: post_try post_mono[OF invalid_user_data_post] split: option.splits)
  next
    case False
    then obtain n e where ne: "map_of d ''name'' = Some n" "map_of d ''email'' = Some e" by auto
    then have nonempty: "d \<noteq> []" by auto
    show ?thesis
    proof (cases "e \<in> u_email ` set (users (st w))")
      case True
      then obtain u where "find (\<lambda>u. u_email u = e) (users (st w)) = Some u"
        by (cases "find (\<lambda>u. u_email u = e) (users (st w))") (auto simp: find_None_iff)
      with Some ne nonempty True show ?thesis
        unfolding create_user_def
        apply simp
        apply (intro post_rules allI impI post_getitem[OF ne(1)] post_getitem[OF ne(2)])
        apply (simp_all)
        apply (rule post_mono[OF email_exists_post])
        apply simp
        done
    next
      case False
      then have "find (\<lambda>u. u_email u = e) (users (st w)) = None"
        by (auto simp: find_None_iff)
      with Some ne nonempty False show ?thesis
        unfolding create_user_def
        apply simp
        apply (intro post_rules allI impI post_getitem[OF ne(1)] post_getitem[OF ne(2)])
        apply (simp_all)
        apply (rule post_mono[OF save_user_post])
        apply simp
        done
    qed
  qed
qed

lemma post_bind_with:
  "post m w P \<Longrightarrow> (\<And>a w'. P a (st w') \<Longrightarrow> post (f a) w' Q) \<Longrightarrow> post (do_bind m f) w Q"
  by (auto simp: post_def do_bind_def)

lemma post_seq_with:
  "post m w P \<Longrightarrow> (\<And>a w'. P a (st w') \<Longrightarrow> post k w' Q) \<Longrightarrow> post (do_seq m k) w Q"
  by (auto simp: post_def do_seq_def do_bind_def)

lemma post_if:
  "(c \<Longrightarrow> post a w Q) \<Longrightarrow> (\<not> c \<Longrightarrow> post b w Q) \<Longrightarrow> post (if c then a else b) w Q"
  by simp

lemma business_steps_post: "post (business_steps steps c) w (\<lambda>r s. s = st w)"
proof (induction steps arbitrary: w)
  case Nil
  show ?case by (simp add: post_ret)
next
  case (Cons step steps)
  have IH: "post (business_steps steps c) w' (\<lambda>r s. s = st w)" if "st w' = st w" for w'
    using Cons.IH[of w'] that by simp
  show ?case
    unfolding business_steps.simps
    by (intro post_rules post_if allI impI IH) simp_all
qed

lemma post_steps: "Q () (st w) \<Longrightarrow> post (business_steps steps c) w Q"
  by (rule post_mono[OF business_steps_post]) simp

lemma post_logic: "Q () (st w) \<Longrightarrow> post (process_business_logic n c) w Q"
  unfolding process_business_logic_def
  by (intro post_rules post_steps allI impI) simp_all

lemma order_loop_post:
  "post (order_loop pids acc) w (\<lambda>r s. s = st w \<and>
      snd r = snd acc @ map (line_item (products (st w))) (filter (available (products (st w))) pids)
      \<and> fst r = fst acc + sum_list (map i_price (map (line_item (products (st w))) (filter (available (products (st w))) pids))))"
proof (induction pids arbitrary: acc w)
  case Nil
  show ?case by (simp add: post_ret)
next
  case (Cons pid pids)
  let ?ps = "products (st w)"
  let ?its = "map (line_item ?ps) (filter (available ?ps) pids)"
  let ?Q = "\<lambda>acc' r s. s = st w \<and> snd r = snd acc' @ ?its \<and> fst r = fst acc' + sum_list (map i_price ?its)"
  have IH: "post (order_loop pids acc') w' (?Q acc')" if "st w' = st w" for w' acc'
    using Cons.IH[of acc' w'] that by simp
  show ?case
  proof (cases "find (\<lambda>p. p_id p = pid) ?ps")
    case None
    then have na: "\<not> available ?ps pid" by (simp add: available_def)
    have "post (order_loop (pid # pids) acc) w (?Q acc)"
      unfolding order_loop.simps
      apply (intro post_rules allI impI)
      apply (simp only: None option.case)
      apply (intro post_rules allI impI IH)
      apply simp
      done
    then show ?thesis by (rule post_mono) (simp add: na)
  next
    case (Some p)
    show ?thesis
    proof (cases "p_stock p \<le> 0")
      case True
      then have na: "\<not> available ?ps pid" by (simp add: available_def Some)
      have "post (order_loop (pid # pids) acc) w (?Q acc)"
        unfolding order_loop.simps
        apply (intro post_rules allI impI)
        apply (simp only: Some option.case True if_True)
        apply (intro post_rules allI impI IH)
           apply (simp_all add: default_range_def)
        done
      then show ?thesis by (rule post_mono) (simp add: na)
    next
      case False
      then have av: "available ?ps pid" by (simp add: available_def Some)
      let ?it = "\<lparr>i_product_id = pid, i_name = p_name p, i_price = p_price p\<rparr>"
      have li: "line_item ?ps pid = ?it"
        by (simp add: line_item_def Some)
      have "post (order_loop (pid # pids) acc) w (?Q (fst acc + p_price p, snd acc @ [?it]))"
        unfolding order_loop.simps
        apply (intro post_rules allI impI)
        apply (simp only: Some option.case False if_False)
        apply (intro post_rules post_logic allI impI IH)
           apply (simp_all add: default_range_def)
        done
      then show ?thesis by (rule post_mono) (simp add: av li)
    qed
  qed
qed

lemma save_order_post:
  "post (save_order uid usr its amount) w (\<lambda>idx s. idx = length (orders (st w)) \<and>
      (\<exists>t. s = (st w)\<lparr>orders := orders (st w) @
          [\<lparr>o_id = int (length (orders (st w))) + 1, o_user_id = uid, o_user_name = u_name usr,
            o_items = its, o_total_amount = amount, o_status = ''pending'', o_created_at = t\<rparr>]\<rparr>))"
  unfolding save_order_def Let_def
  apply (intro post_rules allI impI)
     apply simp_all
  apply (rule exI, rule refl)
  done

lemma process_payment_post:
  "post (process_payment idx amount) w (\<lambda>r s.
      \<exists>status m. (status = ''paid'' \<or> status = ''payment_failed'') \<and>
        s = (st w)\<lparr>orders := (orders (st w))[idx := (orders (st w) ! idx)\<lparr>o_status := status\<rparr>],
                  app_metrics := m\<rparr>)"
  unfolding process_payment_def set_order_status_def
  apply (intro post_rules post_if post_count_error allI impI)
        apply simp_all
   apply (rule exI[of _ "''paid''"], simp)
   apply (rule exI[of _ "app_metrics (st w)"], simp)
  apply (rule exI[of _ "''payment_failed''"], simp)
  apply (rule exI, rule refl)
  done

lemma dec_by_id: "p_id (dec_by pid p) = p_id p"
  by (simp add: dec_by_def)

lemma dec_first_distinct:
  "distinct (map p_id ps) \<Longrightarrow> pid \<in> p_id ` set ps \<Longrightarrow> dec_first pid ps = Some (map (dec_by pid) ps)"
proof (induction ps)
  case Nil
  then show ?case by simp
next
  case (Cons p ps)
  show ?case
  proof (cases "p_id p = pid")
    case True
    from Cons.prems(1) have "p_id p \<notin> p_id ` set ps" by simp
    with True have "\<forall>q \<in> set ps. p_id q \<noteq> pid" by (metis image_eqI)
    then have "map (dec_by pid) ps = ps" by (simp add: dec_by_def map_idI)
    moreover have "dec_by pid p = p\<lparr>p_stock := p_stock p - 1\<rparr>"
      using True by (simp add: dec_by_def)
    ultimately show ?thesis using True by simp
  next
    case False
    with Cons show ?thesis by (auto simp: dec_by_def)
  qed
qed

lemma sold_Nil: "sold [] p = p"
  by (simp add: sold_def)

lemma sold_Cons: "sold its (dec_by (i_product_id it) p) = sold (it # its) p"
  by (simp add: sold_def dec_by_def)

lemma update_inventory_post:
  "distinct (map p_id (products (st w))) \<Longrightarrow> i_product_id ` set its \<subseteq> p_id ` set (products (st w))
   \<Longrightarrow> post (update_inventory its) w (\<lambda>r s. s = (st w)\<lparr>products := map (sold its) (products (st w))\<rparr>)"
proof (induction its arbitrary: w)
  case Nil
  show ?case by (simp add: post_ret sold_Nil[abs_def])
next
  case (Cons it its)
  let ?ps = "products (st w)"
  let ?s1 = "(st w)\<lparr>products := map (dec_by (i_product_id it)) ?ps\<rparr>"
  have d: "dec_first (i_product_id it) ?ps = Some (map (dec_by (i_product_id it)) ?ps)"
    using Cons.prems by (intro dec_first_distinct) auto
  have ids: "map p_id (map (dec_by (i_product_id it)) ?ps) = map p_id ?ps"
    by (simp add: dec_by_id comp_def)
  have step: "post (decrement_stock (i_product_id it)) w (\<lambda>r s. s = ?s1)"
    unfolding decrement_stock_def
    apply (intro post_rules allI impI)
    apply (simp only: d option.case)
    apply (intro post_rules)
    apply simp
    done
  have rest: "post (update_inventory its) w' (\<lambda>r s. s = (st w)\<lparr>products := map (sold (it # its)) ?ps\<rparr>)"
    if "st w' = ?s1" for w'
  proof -
    have pw: "products (st w') = map (dec_by (i_product_id it)) ?ps"
      using that by simp
    have same: "map p_id (products (st w')) = map p_id ?ps"
      by (simp only: pw ids)
    have "distinct (map p_id (products (st w')))"
      using Cons.prems(1) by (simp only: same)
    moreover have "i_product_id ` set its \<subseteq> p_id ` set (products (st w'))"
    proof -
      have "p_id ` set (products (st w')) = set (map p_id (products (st w')))" by simp
      also have "\<dots> = p_id ` set ?ps" by (simp only: same set_map)
      finally show ?thesis using Cons.prems(2) by auto
    qed
    ultimately have "post (update_inventory its) w'
        (\<lambda>r s. s = (st w')\<lparr>products := map (sold its) (products (st w'))\<rparr>)"
      by (rule Cons.IH)
    then show ?thesis
      by (rule post_mono) (simp add: that sold_Cons comp_def)
  qed
  show ?case
    unfolding update_inventory.simps
    by (rule post_seq_with[OF step]) (simp add: rest)
qed

lemma post_conj: "post m w P \<Longrightarrow> post m w Q \<Longrightarrow> post m w (\<lambda>a s. P a s \<and> Q a s)"
  by (auto simp: post_def)

lemma dec_first_known:
  "pid \<in> p_id ` set ps \<Longrightarrow> \<exists>ps'. dec_first pid ps = Some ps' \<and> map p_id ps' = map p_id ps"
  by (induction ps) auto

lemma update_inventory_known:
  "i_product_id ` set its \<subseteq> p_id ` set (products (st w))
   \<Longrightarrow> post (update_inventory its) w
        (\<lambda>r s. \<exists>ps'. s = (st w)\<lparr>products := ps'\<rparr> \<and> map p_id ps' = map p_id (products (st w)))"
proof (induction its arbitrary: w)
  case Nil
  show ?case
    unfolding update_inventory.simps
    by (rule post_ret) (rule exI[of _ "products (st w)"], simp)
next
  case (Cons it its)
  let ?ps = "products (st w)"
  from Cons.prems obtain ps1 where d: "dec_first (i_product_id it) ?ps = Some ps1"
    and ids: "map p_id ps1 = map p_id ?ps"
    using dec_first_known[of "i_product_id it" ?ps] by auto
  have step: "post (decrement_stock (i_product_id it)) w (\<lambda>r s. s = (st w)\<lparr>products := ps1\<rparr>)"
    unfolding decrement_stock_def
    apply (intro post_rules allI impI)
    apply (simp only: d option.case)
    apply (intro post_rules)
    apply simp
    done
  have rest: "post (update_inventory its) w'
      (\<lambda>r s. \<exists>ps'. s = (st w)\<lparr>products := ps'\<rparr> \<and> map p_id ps' = map p_id ?ps)"
    if "st w' = (st w)\<lparr>products := ps1\<rparr>" for w'
  proof -
    have pw: "products (st w') = ps1" using that by simp
    have "p_id ` set (products (st w')) = set (map p_id ps1)" by (simp add: pw)
    also have "\<dots> = p_id ` set ?ps" by (simp only: ids set_map)
    finally have "i_product_id ` set its \<subseteq> p_id ` set (products (st w'))"
      using Cons.prems by auto
    then have "post (update_inventory its) w'
        (\<lambda>r s. \<exists>ps'. s = (st w')\<lparr>products := ps'\<rparr> \<and> map p_id ps' = map p_id (products (st w')))"
      by (rule Cons.IH)
    then show ?thesis
      by (rule post_mono) (auto simp: that ids)
  qed
  show ?case
    unfolding update_inventory.simps
    by (rule post_seq_with[OF step]) (simp add: rest)
qed

lemma update_inventory_effect:
  assumes "i_product_id ` set its \<subseteq> p_id ` set (products (st w))"
  shows "post (update_inventory its) w
        (\<lambda>r s. \<exists>ps'. s = (st w)\<lparr>products := ps'\<rparr> \<and> map p_id ps' = map p_id (products (st w))
           \<and> (distinct (map p_id (products (st w))) \<longrightarrow> ps' = map (sold its) (products (st w))))"
proof (cases "distinct (map p_id (products (st w)))")
  case True
  show ?thesis
    by (rule post_mono[OF update_inventory_post[OF True assms]])
       (rule exI[of _ "map (sold its) (products (st w))"], simp add: sold_def comp_def)
next
  case False
  show ?thesis
    by (rule post_mono[OF update_inventory_known[OF assms]]) (use False in auto)
qed

lemma line_item_id: "i_product_id (line_item ps pid) = pid"
  by (simp add: line_item_def split: option.splits)

lemma available_known: "available ps pid \<Longrightarrow> pid \<in> p_id ` set ps"
  by (auto simp: available_def find_Some_iff split: option.splits)

lemma line_items_known:
  "i_product_id ` set (map (line_item ps) (filter (available ps) pids)) \<subseteq> p_id ` set ps"
  by (auto simp: line_item_id available_known)

lemma place_order_post:
  shows "post (place_order uid usr pids) w (\<lambda>r s. status_code r = 201 \<and>
     (\<exists>status t m ps'. (status = ''paid'' \<or> status = ''payment_failed'') \<and>
        map p_id ps' = map p_id (products (st w)) \<and>
        (distinct (map p_id (products (st w))) \<longrightarrow>
           ps' = map (sold (ordered (products (st w)) pids)) (products (st w))) \<and>
        body r = order_json
          \<lparr>o_id = int (length (orders (st w))) + 1, o_user_id = uid, o_user_name = u_name usr,
            o_items = ordered (products (st w)) pids,
            o_total_amount = sum_list (map i_price (ordered (products (st w)) pids)),
            o_status = status, o_created_at = t\<rparr> \<and>
        s = (st w)\<lparr>orders := orders (st w) @
               [\<lparr>o_id = int (length (orders (st w))) + 1, o_user_id = uid, o_user_name = u_name usr,
                 o_items = ordered (products (st w)) pids,
                 o_total_amount = sum_list (map i_price (ordered (products (st w)) pids)),
                 o_status = status, o_created_at = t\<rparr>],
             products := ps', app_metrics := m\<rparr>))"
  (is "post _ _ ?Q")
proof -
  let ?ps = "products (st w)"
  let ?its = "ordered ?ps pids"
  let ?amt = "sum_list (map i_price ?its)"
  let ?ord = "\<lambda>status t. \<lparr>o_id = int (length (orders (st w))) + 1, o_user_id = uid,
      o_user_name = u_name usr, o_items = ?its, o_total_amount = ?amt,
      o_status = status, o_created_at = t\<rparr>"
  show ?thesis
    unfolding place_order_def
  proof (rule post_bind_with[OF order_loop_post], goal_cases)
    case (1 acc w1)
    then have w1: "st w1 = st w" and acc: "snd acc = ?its" "fst acc = ?amt"
      by (simp_all add: ordered_def)
    show ?case
      unfolding acc
    proof (rule post_bind_with[OF save_order_post], goal_cases)
      case (1 idx w2)
      then obtain t where idx: "idx = length (orders (st w))"
        and w2: "st w2 = (st w)\<lparr>orders := orders (st w) @ [?ord ''pending'' t]\<rparr>"
        using w1 by auto
      show ?case
      proof (rule post_seq_with[OF process_payment_post], goal_cases)
        case (1 u w3)
        then obtain status m where status: "status = ''paid'' \<or> status = ''payment_failed''"
          and w3: "st w3 = (st w)\<lparr>orders := orders (st w) @ [?ord status t], app_metrics := m\<rparr>"
          using idx w2 by auto
        have inv: "post (update_inventory ?its) w4
            (\<lambda>r s. \<exists>ps'. s = (st w3)\<lparr>products := ps'\<rparr> \<and> map p_id ps' = map p_id ?ps
               \<and> (distinct (map p_id ?ps) \<longrightarrow> ps' = map (sold ?its) ?ps))" if "st w4 = st w3" for w4
        proof -
          have "i_product_id ` set ?its \<subseteq> p_id ` set (products (st w4))"
            using line_items_known[of ?ps pids] that w3 by (simp add: ordered_def)
          then have "post (update_inventory ?its) w4
              (\<lambda>r s. \<exists>ps'. s = (st w4)\<lparr>products := ps'\<rparr> \<and> map p_id ps' = map p_id (products (st w4))
                 \<and> (distinct (map p_id (products (st w4))) \<longrightarrow> ps' = map (sold ?its) (products (st w4))))"
            by (rule update_inventory_effect)
          then show ?thesis by (rule post_mono) (simp add: that w3)
        qed
        show ?case
          apply (intro post_rules allI impI)
            apply (simp_all add: default_range_def)
          apply (rule post_mono[OF inv])
           apply simp
          apply (elim exE conjE)
          apply (intro post_rules allI impI)
          subgoal for d w5 a s ps' w6
            apply (simp add: w3 idx jsonify_code_def)
            apply (rule exI[of _ status], simp add: status)
            apply (rule exI[of _ t], simp)
            apply (rule exI[of _ m])
            apply (rule exI[of _ ps'], simp)
            done
          done
      qed
    qed
  qed
qed

lemma create_order_none:
  "\<exists>w'. create_order None w =
      (Inr (jsonify_code (JDict [(''error'', JStr ''Internal server error'')]) 500), w')
     \<and> users (st w') = users (st w) \<and> orders (st w') = orders (st w)
     \<and> products (st w') = products (st w)"
  by (simp add: create_order_def run_defs count_error_def modify_def)

lemma create_order_post:
  "post (create_order (Some od)) w (\<lambda>r s. users s = users (st w) \<and>
     (case (user_id od, product_ids od) of
        (Some uid, Some pids) \<Rightarrow>
          (case find (\<lambda>u. u_id u = uid) (users (st w)) of
             None \<Rightarrow> status_code r = 404 \<and> orders s = orders (st w) \<and> products s = products (st w)
           | Some usr \<Rightarrow> status_code r = 201 \<and>
               (\<exists>status t. (status = ''paid'' \<or> status = ''payment_failed'') \<and>
                  body r = order_json
                    \<lparr>o_id = int (length (orders (st w))) + 1, o_user_id = uid, o_user_name = u_name usr,
                      o_items = ordered (products (st w)) pids,
                      o_total_amount = sum_list (map i_price (ordered (products (st w)) pids)),
                      o_status = status, o_created_at = t\<rparr> \<and>
                  orders s = orders (st w) @
                    [\<lparr>o_id = int (length (orders (st w))) + 1, o_user_id = uid, o_user_name = u_name usr,
                      o_items = ordered (products (st w)) pids,
                      o_total_amount = sum_list (map i_price (ordered (products (st w)) pids)),
                      o_status = status, o_created_at = t\<rparr>]) \<and>
               map p_id (products s) = map p_id (products (st w)) \<and>
               (distinct (map p_id (products (st w))) \<longrightarrow>
                  products s = map (sold (ordered (products (st w)) pids)) (products (st w))))
      | _ \<Rightarrow> status_code r = 400 \<and> orders s = orders (st w) \<and> products s = products (st w)))"
proof (cases "user_id od = None \<or> product_ids od = None")
  case True
  then show ?thesis
    unfolding create_order_def
    apply (intro post_rules allI impI)
    apply (simp only: option.case if_True)
    apply (intro post_rules allI impI)
    apply (auto simp: jsonify_code_def split: option.splits)
    done
next
  case False
  then obtain uid pids where wf: "user_id od = Some uid" "product_ids od = Some pids" by auto
  show ?thesis
  proof (cases "find (\<lambda>u. u_id u = uid) (users (st w))")
    case None
    show ?thesis
      unfolding create_order_def
      apply (intro post_rules allI impI)
      apply (simp only: option.case)
      apply (intro post_rules post_if allI impI)
           apply (simp_all add: wf default_range_def None)
      apply (intro post_rules allI impI)
      apply (simp add: jsonify_code_def)
      done
  next
    case (Some usr)
    show ?thesis
      unfolding create_order_def
      apply (intro post_rules allI impI)
      apply (simp only: option.case)
      apply (intro post_rules post_if allI impI)
           apply (simp_all add: wf default_range_def Some)
      subgoal for w1 t w2 d w3
        apply (rule post_mono[OF place_order_post])
        apply (simp add: wf Some)
        apply (elim exE conjE)
        apply simp
        done
      done
  qed
qed

lemma handle_users_post:
  "post (handle_users ''POST'' data) w (\<lambda>r s.
     orders s = orders (st w) \<and> products s = products (st w) \<and>
     (if lacks data ''name'' \<or> lacks data ''email''
      then status_code r = 400 \<and> users s = users (st w)
      else if entry data ''email'' \<in> u_email ` set (users (st w))
      then status_code r = 409 \<and> users s = users (st w)
      else status_code r = 201 \<and>
        (\<exists>u. users s = users (st w) @ [u] \<and> body r = user_json u
             \<and> u_name u = entry data ''name'' \<and> u_email u = entry data ''email''
             \<and> u_id u = int (length (users (st w))) + 1)))"
  unfolding handle_users_def
  apply (intro post_rules post_count_request allI impI)
  apply (simp only: simp_thms if_True)
  apply (rule post_mono[OF create_user_post])
  apply (auto simp: lacks_def entry_def split: option.splits)
  done





lemma Rep_rnd_0: "Rep_rnd (Abs_rnd 0) = 0"
  by (simp add: Abs_rnd_inverse)


lemma find_user_iff:
  "(find (\<lambda>u. u_id u = uid) us = None) = (uid \<notin> u_id ` set us)"
  by (auto simp: find_None_iff)

lemma ordered_ids: "map i_product_id (ordered ps pids) = filter (available ps) pids"
  by (simp add: ordered_def comp_def line_item_id)

text \<open>
  C3. A POST to \<open>/api/orders\<close> with a well-formed body (an integer \<open>user_id\<close> and a list
  of integers \<open>product_ids\<close>): when no user in the list has that identifier, the answer
  is 404 and no order is appended; otherwise the answer is 201 with the order, which is
  appended, and its line items are those of the requested products that exist and have
  a positive stock, in the order requested: a product that does not exist or is out of
  stock is left out and the order is created all the same.
\<close>

theorem create_order_user_and_products:
  assumes "user_id od = Some uid" and "product_ids od = Some pids"
  shows "\<exists>r w'. create_order (Some od) w = (Inr r, w') \<and>
     (if uid \<in> u_id ` set (users (st w))
      then status_code r = 201 \<and>
        (\<exists>ord. orders (st w') = orders (st w) @ [ord] \<and> body r = order_json ord
            \<and> o_user_id ord = uid
            \<and> map i_product_id (o_items ord) = filter (available (products (st w))) pids
            \<and> o_items ord = map (line_item (products (st w))) (filter (available (products (st w))) pids))
      else status_code r = 404 \<and> orders (st w') = orders (st w))"
proof (cases "find (\<lambda>u. u_id u = uid) (users (st w))")
  case None
  then have "uid \<notin> u_id ` set (users (st w))" by (simp add: find_user_iff)
  with create_order_post[of od w] assms None show ?thesis
    by (auto simp: post_def)
next
  case (Some usr)
  then have "uid \<in> u_id ` set (users (st w))"
    using find_user_iff[of uid "users (st w)"] by auto
  with create_order_post[of od w] assms Some show ?thesis
    unfolding post_def
    apply (elim exE conjE)
    apply (intro exI conjI, assumption)
    apply (simp del: ordered_def)
    apply (elim exE conjE)
    apply (intro exI conjI, assumption)
       apply (simp_all add: ordered_ids)
    apply (simp add: ordered_def)
    done
qed

text \<open>
  Ann orders the products 1, 2, 7 and 1: the phone (2) is out of stock and there is no
  product 7, so the order holds the laptop twice.
\<close>

theorem create_order_user_and_products_witness:
  "user_id order_example = Some 1 \<and> product_ids order_example = Some [1, 2, 7, 1]
   \<and> (\<exists>r w' ord. create_order (Some order_example) shop_example = (Inr r, w')
         \<and> status_code r = 201 \<and> orders (st w') = [ord]
         \<and> map i_product_id (o_items ord) = [1, 1])"
proof -
  have a: "user_id order_example = Some 1" and b: "product_ids order_example = Some [1, 2, 7, 1]"
    by (simp_all add: order_example_def)
  from create_order_user_and_products[OF a b, of shop_example] a b show ?thesis
    by (auto simp: shop_example_def available_def)
qed

text \<open>
  C10. When \<open>create_order\<close> answers 201 (a well-formed body of a known user, in a shop
  whose products have distinct identifiers, as every state between requests has), each
  product's stock has gone down by the number of line items of the new order that
  reference it, whether the order ends \<open>paid\<close> or \<open>payment_failed\<close>; the line items are
  the requested products that could be bought, so a product that was skipped keeps its
  stock, and no other field of a product changes.
\<close>

theorem create_order_stock:
  assumes "user_id od = Some uid" and "product_ids od = Some pids"
    and "uid \<in> u_id ` set (users (st w))"
    and "distinct (map p_id (products (st w)))"
  shows "\<exists>r w' ord. create_order (Some od) w = (Inr r, w') \<and> status_code r = 201
      \<and> orders (st w') = orders (st w) @ [ord] \<and> body r = order_json ord
      \<and> (o_status ord = ''paid'' \<or> o_status ord = ''payment_failed'')
      \<and> map i_product_id (o_items ord) = filter (available (products (st w))) pids
      \<and> products (st w') = map (sold (o_items ord)) (products (st w))"
proof -
  from assms(3) obtain usr where "find (\<lambda>u. u_id u = uid) (users (st w)) = Some usr"
    using find_user_iff[of uid "users (st w)"] by auto
  with create_order_post[of od w] assms show ?thesis
    unfolding post_def
    apply (elim exE conjE)
    apply (simp del: ordered_def)
    apply (elim exE conjE)
    apply (intro exI conjI, assumption)
        apply (simp_all add: ordered_ids)
    done
qed

lemma post_run:
  "post m w Q \<Longrightarrow> m w = (res, w') \<Longrightarrow> \<exists>a. res = Inr a \<and> Q a (st w')"
  by (auto simp: post_def)

lemma post_cache:
  "(\<And>b. Q b (st w)) \<Longrightarrow> post (simulate_cache_operation k h) w Q"
  unfolding simulate_cache_operation_def
  by (intro post_rules post_if allI impI) simp_all

lemma get_users_post: "post get_users w (\<lambda>r s. s = st w)"
  unfolding get_users_def
  by (intro post_rules post_if post_cache allI impI) simp_all

lemma handle_users_frame:
  "post (handle_users m data) w (\<lambda>r s.
     orders s = orders (st w) \<and> products s = products (st w) \<and>
     (users s = users (st w) \<or>
      (\<exists>u. users s = users (st w) @ [u] \<and> u_id u = int (length (users (st w))) + 1)))"
proof (cases "m = ''POST''")
  case True
  show ?thesis
    unfolding True
    by (rule post_mono[OF handle_users_post]) (auto split: if_splits)
next
  case False
  show ?thesis
    unfolding handle_users_def
    apply (intro post_rules post_count_request allI impI)
    apply (simp only: False if_False)
    apply (rule post_mono[OF get_users_post])
    apply simp
    done
qed

lemma create_order_frame:
  "post (create_order data) w (\<lambda>r s.
     users s = users (st w) \<and> map p_id (products s) = map p_id (products (st w)) \<and>
     (orders s = orders (st w) \<or> (\<exists>ord. orders s = orders (st w) @ [ord] \<and> settled ord)))"
proof (cases data)
  case None
  with create_order_none[of w] show ?thesis
    by (auto simp: post_def)
next
  case (Some od)
  show ?thesis
    unfolding Some
    by (rule post_mono[OF create_order_post])
       (auto simp: settled_def split: option.splits)
qed

lemma serve_frame:
  assumes "serve rq w = (res, w')"
  shows "map p_id (products (st w')) = map p_id (products (st w))
     \<and> (orders (st w') = orders (st w) \<or> (\<exists>ord. orders (st w') = orders (st w) @ [ord] \<and> settled ord))
     \<and> (users (st w') = users (st w) \<or>
        (\<exists>u. users (st w') = users (st w) @ [u] \<and> u_id u = int (length (users (st w))) + 1))"
proof (cases rq)
  case (Users_api m data)
  with assms post_run[OF handle_users_frame, of m data w res w'] show ?thesis by auto
next
  case (Orders_api data)
  with assms post_run[OF create_order_frame, of data w res w'] show ?thesis by auto
next
  case Health_api
  with assms post_run[OF health_store, of w res w'] show ?thesis by auto
qed

lemma numbered_append:
  "numbered us \<Longrightarrow> u_id u = int (length us) + 1 \<Longrightarrow> numbered (us @ [u])"
  by (simp add: numbered_def)

lemma serial_invariant:
  "serial w \<Longrightarrow> list_all settled (orders (st w))
     \<and> map p_id (products (st w)) = [1, 2, 3, 4] \<and> numbered (users (st w))"
proof (induction rule: serial.induct)
  case (start w)
  then show ?case by (simp add: store_start_def seed_products_def numbered_def)
next
  case (request w rq res w')
  from serve_frame[OF request.hyps(2)] request.IH show ?case
    by (auto simp: numbered_append)
next
  case (other w w' m)
  then show ?case by simp
qed

text \<open>
  Ann orders the products 1, 2, 7 and 1 when two laptops are wanted, the phone is out of
  stock and there is no product 7. Every random draw is 0, so the payment fails; the
  stock of the laptop still goes from 10 to 8.
\<close>

theorem create_order_stock_witness:
  "user_id order_example = Some 1 \<and> product_ids order_example = Some [1, 2, 7, 1]
   \<and> 1 \<in> u_id ` set (users (st shop_example))
   \<and> distinct (map p_id (products (st shop_example)))
   \<and> (\<exists>r w' ord. create_order (Some order_example) shop_example = (Inr r, w')
         \<and> status_code r = 201 \<and> orders (st w') = [ord]
         \<and> map p_stock (products (st w')) = [8, 0])
   \<and> map o_status (orders (st (snd (create_order (Some order_example) shop_example))))
       = [''payment_failed'']"
proof -
  have a: "user_id order_example = Some 1" and b: "product_ids order_example = Some [1, 2, 7, 1]"
    by (simp_all add: order_example_def)
  have c: "1 \<in> u_id ` set (users (st shop_example))"
    and d: "distinct (map p_id (products (st shop_example)))"
    by (simp_all add: shop_example_def)
  obtain r w' ord where run: "create_order (Some order_example) shop_example = (Inr r, w')"
    and r: "status_code r = 201" and o: "orders (st w') = orders (st shop_example) @ [ord]"
    and body: "body r = order_json ord"
    and i: "map i_product_id (o_items ord) = filter (available (products (st shop_example))) [1, 2, 7, 1]"
    and p: "products (st w') = map (sold (o_items ord)) (products (st shop_example))"
    using create_order_stock[OF a b c d] by blast
  from i have ids: "map i_product_id (o_items ord) = [1, 1]"
    by (simp add: shop_example_def available_def)
  have stock: "map p_stock (products (st w')) = [8, 0]"
    by (simp add: p sold_def ids shop_example_def)
  have failed: "map o_status (orders (st (snd (create_order (Some order_example) shop_example))))
       = [''payment_failed'']"
    by (simp add: create_order_def place_order_def save_order_def process_payment_def
        set_order_status_def update_inventory.simps decrement_stock_def order_loop.simps
        process_business_logic_def business_steps.simps simulate_database_operation_def
        default_range_def count_error_def gets_def modify_def run_defs random_uniform_def
        random_random_def sleep_short Rep_rnd_0 order_example_def shop_example_def
        jsonify_code_def)
  from a b c d run r o stock failed show ?thesis
    by (auto simp: shop_example_def)
qed

subsection \<open>The life of an order\<close>

text \<open>
  C5, as the code has it. The step that saves an order appends it with status
  \<open>pending\<close>; the payment step rewrites the status of that one order, to \<open>paid\<close> or to
  \<open>payment_failed\<close>, and leaves every other order as it was; \<open>create_order\<close> always
  returns, and the list of orders is then the one it started from, or that one followed
  by one order that is \<open>paid\<close> or \<open>payment_failed\<close>; no request removes or changes an
  order that is in the list. Hence, when the requests are handled one after another,
  every order in the list is \<open>paid\<close> or \<open>payment_failed\<close> after every completed
  request. (An order of a request that is still between its append and its payment step
  is \<open>pending\<close>, whatever other requests complete meanwhile: see below.)
\<close>

theorem order_status_lifecycle:
  "(\<exists>idx w1 ord. save_order uid usr its amount w = (Inr idx, w1)
        \<and> idx = length (orders (st w)) \<and> orders (st w1) = orders (st w) @ [ord]
        \<and> o_status ord = ''pending'')
   \<and> (\<exists>w2 status. process_payment idx amount w = (Inr (), w2)
        \<and> (status = ''paid'' \<or> status = ''payment_failed'')
        \<and> orders (st w2) = (orders (st w))[idx := (orders (st w) ! idx)\<lparr>o_status := status\<rparr>])
   \<and> (\<exists>r w'. create_order data w = (Inr r, w')
        \<and> (orders (st w') = orders (st w)
           \<or> (\<exists>ord. orders (st w') = orders (st w) @ [ord] \<and> settled ord)))
   \<and> (serve rq w = (res, w'') \<longrightarrow>
        orders (st w'') = orders (st w)
        \<or> (\<exists>ord. orders (st w'') = orders (st w) @ [ord] \<and> settled ord))
   \<and> (serial w \<longrightarrow> list_all settled (orders (st w)))"
proof (intro conjI impI)
  show "\<exists>idx w1 ord. save_order uid usr its amount w = (Inr idx, w1)
        \<and> idx = length (orders (st w)) \<and> orders (st w1) = orders (st w) @ [ord]
        \<and> o_status ord = ''pending''"
    using save_order_post[of uid usr its amount w] by (auto simp: post_def)
  show "\<exists>w2 status. process_payment idx amount w = (Inr (), w2)
        \<and> (status = ''paid'' \<or> status = ''payment_failed'')
        \<and> orders (st w2) = (orders (st w))[idx := (orders (st w) ! idx)\<lparr>o_status := status\<rparr>]"
    using process_payment_post[of idx amount w] by (auto simp: post_def)
  show "\<exists>r w'. create_order data w = (Inr r, w')
        \<and> (orders (st w') = orders (st w)
           \<or> (\<exists>ord. orders (st w') = orders (st w) @ [ord] \<and> settled ord))"
    using create_order_frame[of data w] by (auto simp: post_def)
  show "orders (st w'') = orders (st w)
        \<or> (\<exists>ord. orders (st w'') = orders (st w) @ [ord] \<and> settled ord)"
    if "serve rq w = (res, w'')"
    using serve_frame[OF that] by blast
  show "list_all settled (orders (st w))" if "serial w"
    using serial_invariant[OF that] by simp
qed

lemma paid_some_serial: "serial paid_some"
  unfolding paid_some_def
  by (intro serial.request[OF _ prod.collapse[symmetric]] serial.start refl)

lemma paid_some_orders: "length (orders (st paid_some)) = 1"
proof -
  let ?w1 = "snd (serve (Users_api ''POST'' (Some ann)) store_start)"
  obtain r1 where r1: "serve (Users_api ''POST'' (Some ann)) store_start = (r1, ?w1)"
    by (metis prod.collapse)
  from post_run[OF handle_users_post, of "Some ann" store_start r1 ?w1] r1
  obtain u where u: "users (st ?w1) = [u]" "u_id u = 1" and o1: "orders (st ?w1) = []"
    by (auto simp: lacks_def entry_def ann_def store_start_def)
  obtain r2 where r2: "create_order (Some order_example) ?w1 = (r2, paid_some)"
    unfolding paid_some_def by (metis prod.collapse serve.simps(2))
  from post_run[OF create_order_post, of order_example ?w1 r2 paid_some] r2 u o1
  show ?thesis
    by (auto simp: order_example_def)
qed

text \<open>
  The shop after Ann was created and her order placed, one request after the other: it
  holds one order, which is settled.
\<close>

theorem order_status_lifecycle_witness:
  "serial paid_some \<and> length (orders (st paid_some)) = 1
   \<and> list_all settled (orders (st paid_some))"
  using order_status_lifecycle[where w = paid_some] paid_some_serial paid_some_orders
  by simp

text \<open>
  Requests that overlap. A request of Ann has appended its order and sleeps in its
  payment step, for 0.2 to 0.5 seconds. Meanwhile two other requests are served from
  start to end: one for a user that does not exist, answered 404 after 0.05 seconds,
  and one of Ann for no product, answered 201 after 0.4 seconds (the draws are 0). After
  each of these completed requests the list holds an order that is \<open>pending\<close>.
\<close>

theorem order_pending_counterexample:
  "map o_status (orders (st payment_pending)) = [''pending'']
   \<and> map_option status_code
        (replied (create_order (Some \<lparr>user_id = Some 99, product_ids = Some []\<rparr>)) payment_pending)
       = Some 404
   \<and> map o_status (orders (st (snd
        (create_order (Some \<lparr>user_id = Some 99, product_ids = Some []\<rparr>) payment_pending))))
       = [''pending'']
   \<and> map_option status_code
        (replied (create_order (Some \<lparr>user_id = Some 1, product_ids = Some []\<rparr>)) payment_pending)
       = Some 201
   \<and> map o_status (orders (st (snd
        (create_order (Some \<lparr>user_id = Some 1, product_ids = Some []\<rparr>) payment_pending))))
       = [''pending'', ''payment_failed'']
   \<and> clock (snd (create_order (Some \<lparr>user_id = Some 99, product_ids = Some []\<rparr>) payment_pending))
       - clock payment_pending = 0.05
   \<and> clock (snd (create_order (Some \<lparr>user_id = Some 1, product_ids = Some []\<rparr>) payment_pending))
       - clock payment_pending = 0.4"
  by (simp add: payment_pending_def replied_def create_order_def place_order_def save_order_def
      process_payment_def set_order_status_def update_inventory.simps order_loop.simps
      simulate_database_operation_def default_range_def count_error_def gets_def modify_def
      run_defs random_uniform_def random_random_def sleep_short Rep_rnd_0 shop_example_def
      jsonify_code_def)


subsection \<open>The simulated database operation\<close>

lemma sampled_bounds:
  "fst rng \<le> snd rng \<Longrightarrow> fst rng \<le> sampled rng w \<and> sampled rng w \<le> snd rng"
  unfolding sampled_def using uniform_bounds[of "fst rng" "snd rng" "Rep_rnd (rand w (rand_pos w))"]
  by (simp add: rnd_bounds)

text \<open>
  C6, as the code has it. For a range with \<open>0 \<le> lo \<le> hi\<close> whose \<open>hi\<close> is no longer than
  the longest pause \<open>time.sleep\<close> accepts (every \<open>hi\<close> of up to a day is), a call of
  \<open>simulate_database_operation(operation_type, (lo, hi))\<close> never fails; it returns the
  sampled duration \<open>d\<close>, with \<open>lo \<le> d \<le> hi\<close>, after pausing for exactly \<open>d\<close>. The
  version in \<open>app-without-inst.py\<close> writes one log line before the pause and one after
  it; the version in the traced shop writes no log line: it adds one event to its
  tracing span before the pause and one after it.
\<close>

theorem simulate_database_operation_contract:
  assumes "0 \<le> lo" and "lo \<le> hi" and "hi \<le> Rep_pause (sleep_max w)"
  shows "lo \<le> sampled (lo, hi) w \<and> sampled (lo, hi) w \<le> hi
    \<and> simulate_database_operation op (lo, hi) w =
        (Inr (sampled (lo, hi) w),
         w\<lparr>clock := clock w + sampled (lo, hi) w,
           trace := trace w @
             [Log INFO [Lit ''Starting '', Lit op, Lit '' operation''],
              Sleep (sampled (lo, hi) w),
              Log INFO [Lit ''Completed '', Lit op, Lit '' operation in '',
                        Fix 3 (sampled (lo, hi) w), Lit ''s'']],
           rand_pos := Suc (rand_pos w)\<rparr>)
    \<and> traced_simulate_database_operation op (lo, hi) w =
        (Inr (sampled (lo, hi) w),
         w\<lparr>clock := clock w + sampled (lo, hi) w,
           trace := trace w @
             [Span_start [Lit ''database_'', Lit op],
              Span_attribute ''db.operation'' (JStr op),
              Span_attribute ''db.name'' (JStr ''demo_db''),
              Span_event [Lit ''Starting '', Lit op, Lit '' operation''],
              Sleep (sampled (lo, hi) w),
              Span_attribute ''db.duration_ms'' (JNum (sampled (lo, hi) w * 1000)),
              Span_event [Lit ''Completed '', Lit op, Lit '' operation''],
              Span_end],
           rand_pos := Suc (rand_pos w)\<rparr>)"
proof -
  let ?d = "sampled (lo, hi) w"
  have b: "lo \<le> ?d \<and> ?d \<le> hi"
    using sampled_bounds[of "(lo, hi)" w] assms by simp
  have d: "lo + (hi - lo) * Rep_rnd (rand w (rand_pos w)) = ?d"
    by (simp add: sampled_def)
  have sleep: "time_sleep ?d w' = (Inr (), w'\<lparr>clock := clock w' + ?d, trace := trace w' @ [Sleep ?d]\<rparr>)"
    if "sleep_max w' = sleep_max w" for w' :: "'a world"
    using b assms that by (intro sleep_accepted) auto
  have plain: "simulate_database_operation op (lo, hi) w =
        (Inr ?d,
         w\<lparr>clock := clock w + ?d,
           trace := trace w @
             [Log INFO [Lit ''Starting '', Lit op, Lit '' operation''],
              Sleep ?d,
              Log INFO [Lit ''Completed '', Lit op, Lit '' operation in '', Fix 3 ?d, Lit ''s'']],
           rand_pos := Suc (rand_pos w)\<rparr>)"
    by (simp add: simulate_database_operation_def run_defs random_uniform_def random_random_def
        d sleep)
  have traced: "traced_simulate_database_operation op (lo, hi) w =
        (Inr ?d,
         w\<lparr>clock := clock w + ?d,
           trace := trace w @
             [Span_start [Lit ''database_'', Lit op],
              Span_attribute ''db.operation'' (JStr op),
              Span_attribute ''db.name'' (JStr ''demo_db''),
              Span_event [Lit ''Starting '', Lit op, Lit '' operation''],
              Sleep ?d,
              Span_attribute ''db.duration_ms'' (JNum (?d * 1000)),
              Span_event [Lit ''Completed '', Lit op, Lit '' operation''],
              Span_end],
           rand_pos := Suc (rand_pos w)\<rparr>)"
    by (simp add: traced_simulate_database_operation_def with_span_def span_add_event_def
        span_set_attribute_def run_defs random_uniform_def random_random_def d sleep)
  from b plain traced show ?thesis by simp
qed

text \<open>The default range's lower end, on a fresh process whose draws are 0.\<close>

theorem simulate_database_operation_contract_witness:
  "(0::real) \<le> 0.05 \<and> (0.05::real) \<le> 0.2 \<and> 0.2 \<le> Rep_pause (sleep_max store_start)
   \<and> fst (simulate_database_operation ''select'' (0.05, 0.2) store_start) = Inr 0.05
   \<and> trace (snd (simulate_database_operation ''select'' (0.05, 0.2) store_start)) =
       [Log INFO [Lit ''Starting '', Lit ''select'', Lit '' operation''],
        Sleep 0.05,
        Log INFO [Lit ''Completed '', Lit ''select'', Lit '' operation in '', Fix 3 0.05, Lit ''s'']]"
  using simulate_database_operation_contract[where lo = "0.05" and hi = "0.2"
      and w = store_start and op = "''select''"]
  by (simp add: sampled_def store_start_def Rep_rnd_0 Rep_pause_day)

text \<open>
  A range of negative durations makes \<open>time.sleep\<close> raise \<open>ValueError\<close>, and a range of
  ten thousand million seconds makes it raise \<open>OverflowError\<close>; a range given upside
  down yields a duration above its second bound; the traced version leaves no log line.
\<close>

theorem simulate_database_operation_counterexample:
  "fst (simulate_database_operation ''select'' (- 2, - 1) store_start)
     = Inl (ValueError [Lit ''sleep length must be non-negative''])
   \<and> fst (simulate_database_operation ''select'' (10000000000, 10000000000) store_start)
     = Inl (OverflowError [Lit ''timestamp out of range for platform time_t''])
   \<and> fst (simulate_database_operation ''select'' (2, 1) store_start) = Inr 2
   \<and> filter is_log (trace (snd (traced_simulate_database_operation ''select'' (0.05, 0.2) store_start))) = []"
  by (simp add: simulate_database_operation_def traced_simulate_database_operation_def
        with_span_def span_add_event_def span_set_attribute_def run_defs random_uniform_def
        random_random_def sleep_defs store_start_def Rep_rnd_0 Rep_pause_day)


subsection \<open>The fire-and-forget task\<close>





subsection \<open>Parallel callers\<close>

lemma alone_create_user:
  "\<exists>r w' now. create_user user_data w = (Inr r, w')
      \<and> alone now user_data (users (st w)) = ([Answered (status_code r)], users (st w'))"
proof -
  from create_user_post[of user_data w] obtain r w' where
    run: "create_user user_data w = (Inr r, w')" and
    q: "case user_data of
       None \<Rightarrow> status_code r = 400 \<and> users (st w') = users (st w)
     | Some d \<Rightarrow>
        (case (map_of d ''name'', map_of d ''email'') of
           (Some n, Some e) \<Rightarrow>
             if e \<in> u_email ` set (users (st w))
             then status_code r = 409 \<and> users (st w') = users (st w)
             else status_code r = 201 \<and>
               (\<exists>u. users (st w') = users (st w) @ [u] \<and> body r = user_json u \<and> u_name u = n
                    \<and> u_email u = e \<and> u_id u = int (length (users (st w))) + 1
                    \<and> u_status u = ''active'')
         | _ \<Rightarrow> status_code r = 400 \<and> users (st w') = users (st w))"
    by (auto simp: post_def)
  show ?thesis
  proof (cases user_data)
    case None
    with run q show ?thesis by (auto simp: alone_def)
  next
    case (Some d)
    show ?thesis
    proof (cases "map_of d ''name'' = None \<or> map_of d ''email'' = None")
      case True
      with run q Some show ?thesis by (auto simp: alone_def split: option.splits)
    next
      case False
      then obtain n e where ne: "map_of d ''name'' = Some n" "map_of d ''email'' = Some e" by auto
      then have d: "d \<noteq> []" by auto
      show ?thesis
      proof (cases "e \<in> u_email ` set (users (st w))")
        case True
        then obtain x where "find (\<lambda>u. u_email u = e) (users (st w)) = Some x"
          by (cases "find (\<lambda>u. u_email u = e) (users (st w))") (auto simp: find_None_iff)
        with run q Some ne d True show ?thesis
          by (auto simp: alone_def entry_def)
      next
        case False
        then have f: "find (\<lambda>u. u_email u = e) (users (st w)) = None"
          by (auto simp: find_None_iff)
        from q Some ne False obtain u where u: "status_code r = 201"
          "users (st w') = users (st w) @ [u]" "u_name u = n" "u_email u = e"
          "u_id u = int (length (users (st w))) + 1" "u_status u = ''active''"
          by auto
        have "u = \<lparr>u_id = int (length (users (st w))) + 1, u_name = n, u_email = e,
                   u_created_at = u_created_at u, u_status = ''active''\<rparr>"
          using u by simp
        with run u Some ne d f show ?thesis
          apply (intro exI[of _ r] exI[of _ w'] exI[of _ "u_created_at u"])
          apply (simp add: alone_def entry_def)
          done
      qed
    qed
  qed
qed

lemma run_step:
  "i < length jobs \<Longrightarrow> advance now (jobs ! i) us = (j, us')
   \<Longrightarrow> run ((i, now) # sched) (jobs, us) = run sched (jobs[i := j], us')"
  by simp

lemma sweep_from:
  "map (\<lambda>i. (i, 0::real)) [k..<k + Suc n] = (k, 0) # map (\<lambda>i. (i, 0)) [Suc k..<Suc k + n]"
  by (simp add: upt_rec)

lemma advance_arrived_empty:
  "well_formed d \<Longrightarrow> advance 0 (Arrived (Some d)) [] = (Holding (fresh_user 0 d), [])"
  by (auto simp: well_formed_def fresh_user_def)

lemma all_arrive:
  "\<forall>d\<in>set ds. well_formed d \<Longrightarrow>
   run (map (\<lambda>i. (i, 0)) [length pre..<length pre + length ds]) (pre @ crowd ds, [])
     = (pre @ map (\<lambda>d. Holding (fresh_user 0 d)) ds, [])"
proof (induction ds arbitrary: pre)
  case Nil
  show ?case by (simp add: crowd_def)
next
  case (Cons d ds)
  let ?rest = "map (\<lambda>i. (i, 0::real)) [Suc (length pre)..<Suc (length pre) + length ds]"
  let ?h = "Holding (fresh_user 0 d)"
  have wf: "well_formed d" and rest: "\<forall>d\<in>set ds. well_formed d" using Cons.prems by auto
  have "run (map (\<lambda>i. (i, 0)) [length pre..<length pre + length (d # ds)]) (pre @ crowd (d # ds), [])
      = run ((length pre, 0) # ?rest) (pre @ crowd (d # ds), [])"
    using sweep_from[of "length pre" "length ds"] by simp
  also have "\<dots> = run ?rest ((pre @ crowd (d # ds))[length pre := ?h], [])"
  proof -
    have nth: "(pre @ crowd (d # ds)) ! length pre = Arrived (Some d)"
      by (simp add: crowd_def)
    have adv: "advance 0 ((pre @ crowd (d # ds)) ! length pre) [] = (?h, [])"
      unfolding nth by (rule advance_arrived_empty[OF wf])
    show ?thesis
      by (rule run_step[OF _ adv]) (simp add: crowd_def)
  qed
  also have "\<dots> = run ?rest ((pre @ [?h]) @ crowd ds, [])"
    by (simp add: crowd_def)
  also have "\<dots> = ((pre @ [?h]) @ map (\<lambda>d. Holding (fresh_user 0 d)) ds, [])"
    using Cons.IH[OF rest, of "pre @ [?h]"] by simp
  finally show ?case by simp
qed

lemma all_append:
  "run (map (\<lambda>i. (i, 0)) [length pre..<length pre + length hs]) (pre @ map Holding hs, us)
     = (pre @ replicate (length hs) (Answered 201), us @ hs)"
proof (induction hs arbitrary: pre us)
  case Nil
  show ?case by simp
next
  case (Cons h hs)
  let ?rest = "map (\<lambda>i. (i, 0::real)) [Suc (length pre)..<Suc (length pre) + length hs]"
  have "run (map (\<lambda>i. (i, 0)) [length pre..<length pre + length (h # hs)]) (pre @ map Holding (h # hs), us)
      = run ((length pre, 0) # ?rest) (pre @ map Holding (h # hs), us)"
    using sweep_from[of "length pre" "length hs"] by simp
  also have "\<dots> = run ?rest ((pre @ map Holding (h # hs))[length pre := Answered 201], us @ [h])"
    by (rule run_step) simp_all
  also have "\<dots> = run ?rest ((pre @ [Answered 201]) @ map Holding hs, us @ [h])"
    by simp
  also have "\<dots> = ((pre @ [Answered 201]) @ replicate (length hs) (Answered 201), (us @ [h]) @ hs)"
    using Cons.IH[of "pre @ [Answered 201]" "us @ [h]"] by simp
  finally show ?case by (simp add: replicate_app_Cons_same)
qed

lemma run_append: "run (xs @ ys) c = run ys (run xs c)"
proof (induction xs arbitrary: c)
  case Nil
  show ?case by simp
next
  case (Cons x xs)
  obtain i now where x: "x = (i, now)" by (cases x)
  obtain jobs us where c: "c = (jobs, us)" by (cases c)
  show ?case
    unfolding x c by (simp add: Cons.IH split: prod.splits)
qed

lemma overlapping_callers:
  assumes "\<forall>d\<in>set ds. well_formed d"
  shows "run (sweep (length ds) @ sweep (length ds)) (crowd ds, [])
     = (replicate (length ds) (Answered 201), map (fresh_user 0) ds)"
proof -
  have 1: "run (sweep (length ds)) (crowd ds, []) = (map (\<lambda>d. Holding (fresh_user 0 d)) ds, [])"
    using all_arrive[OF assms, of "[]"] by (simp add: sweep_def)
  have 2: "run (sweep (length ds)) (map Holding (map (fresh_user 0) ds), [])
      = (replicate (length ds) (Answered 201), map (fresh_user 0) ds)"
    using all_append[of "[]" "map (fresh_user 0) ds" "[]"] by (simp add: sweep_def)
  have 3: "map (\<lambda>d. Holding (fresh_user 0 d)) ds = map Holding (map (fresh_user 0) ds)"
    by simp
  show ?thesis
    by (simp only: run_append 1 3 2)
qed

text \<open>
  C4 fails on the code. A hundred callers with a hundred different emails create users
  on an empty list, and every thread builds its user, whose \<open>id\<close> is \<open>len(users) + 1\<close>,
  before any thread appends. All hundred requests are answered 201 and the list then
  holds a hundred users (no write is lost), but all hundred users have the identifier
  1: the identifiers are not pairwise distinct.
\<close>

theorem concurrent_user_creation_race:
  "fst (run (sweep 100 @ sweep 100) (crowd (map caller [0..<100]), [])) = replicate 100 (Answered 201)
   \<and> length (snd (run (sweep 100 @ sweep 100) (crowd (map caller [0..<100]), []))) = 100
   \<and> map u_id (snd (run (sweep 100 @ sweep 100) (crowd (map caller [0..<100]), []))) = replicate 100 1
   \<and> distinct (map email_of (map caller [0..<100]))"
proof -
  have wf: "\<forall>d\<in>set (map caller [0..<100]). well_formed d"
    by (auto simp: well_formed_def caller_def)
  have inj: "inj_on (\<lambda>k. email_of (caller k)) A" for A
    by (rule inj_onI) (simp add: email_of_def caller_def entry_def)
  have d: "distinct (map email_of (map caller [0..<100]))"
    by (simp add: distinct_map comp_def inj)
  from overlapping_callers[OF wf] d show ?thesis
    by (simp add: comp_def fresh_user_def map_replicate_const)
qed

lemma count_update:
  "i < length xs \<Longrightarrow>
   length (filter P (xs[i := y])) + (if P (xs ! i) then 1 else 0)
     = length (filter P xs) + (if P y then 1 else 0)"
proof (induction xs arbitrary: i)
  case Nil
  then show ?case by simp
next
  case (Cons x xs)
  show ?case
  proof (cases i)
    case 0
    then show ?thesis by simp
  next
    case (Suc k)
    with Cons.prems have "k < length xs" by simp
    from Cons.IH[OF this] Suc show ?thesis by simp
  qed
qed

lemma tracks_update:
  "list_all2 tracks ds jobs \<Longrightarrow> i < length jobs \<Longrightarrow> tracks (ds ! i) j
   \<Longrightarrow> list_all2 tracks ds (jobs[i := j])"
  using list_all2_update_cong[of tracks ds jobs "ds ! i" j i] by simp

lemma run_invariant:
  assumes wf: "\<forall>d\<in>set ds. well_formed d"
    and dist: "distinct (map email_of ds)"
    and fresh: "set (map email_of ds) \<inter> u_email ` set us0 = {}"
  shows "list_all2 tracks ds jobs
    \<Longrightarrow> set (map u_email new) \<subseteq> {email_of (ds ! j) | j. j < length ds \<and> answered (jobs ! j)}
    \<Longrightarrow> length new = length (filter answered jobs)
    \<Longrightarrow> run sched (jobs, us0 @ new) = (jobs', us')
    \<Longrightarrow> \<exists>new'. us' = us0 @ new' \<and> list_all2 tracks ds jobs'
          \<and> length new' = length (filter answered jobs')"
proof (induction sched arbitrary: jobs new)
  case Nil
  then show ?case by auto
next
  case (Cons x sched)
  obtain i now where x: "x = (i, now)" by (cases x)
  have len: "length jobs = length ds"
    using Cons.prems(1) by (simp add: list_all2_lengthD)
  show ?case
  proof (cases "i < length jobs")
    case False
    with Cons.prems(4) x have "run sched (jobs, us0 @ new) = (jobs', us')" by simp
    from Cons.IH[OF Cons.prems(1-3) this] show ?thesis .
  next
    case True
    then have i: "i < length ds" using len by simp
    have tr: "tracks (ds ! i) (jobs ! i)"
      using Cons.prems(1) True by (simp add: list_all2_nthD2)
    have wfi: "well_formed (ds ! i)" using wf i by simp
    consider (arrived) "jobs ! i = Arrived (Some (ds ! i))"
      | (holding) u where "jobs ! i = Holding u" "u_email u = email_of (ds ! i)"
      | (finished) "jobs ! i = Answered 201"
      using tr unfolding tracks_def by blast
    then show ?thesis
    proof cases
      case arrived
      have notin0: "email_of (ds ! i) \<notin> u_email ` set us0"
        using fresh i by (auto simp: disjoint_iff)
      have notin1: "email_of (ds ! i) \<notin> set (map u_email new)"
      proof
        assume "email_of (ds ! i) \<in> set (map u_email new)"
        with Cons.prems(2) obtain j where j: "j < length ds" "answered (jobs ! j)"
          "email_of (ds ! i) = email_of (ds ! j)" by auto
        from j(2) arrived have "j \<noteq> i" by auto
        moreover from dist i j(1,3) have "i = j"
          by (auto simp: distinct_conv_nth)
        ultimately show False by simp
      qed
      have "\<forall>u\<in>set (us0 @ new). u_email u \<noteq> email_of (ds ! i)"
        using notin0 notin1 by (metis Un_iff image_eqI set_append set_map)
      then have f: "find (\<lambda>u. u_email u = email_of (ds ! i)) (us0 @ new) = None"
        unfolding find_None_iff by blast
      let ?u = "\<lparr>u_id = int (length (us0 @ new)) + 1, u_name = entry (Some (ds ! i)) ''name'',
                 u_email = entry (Some (ds ! i)) ''email'', u_created_at = now,
                 u_status = ''active''\<rparr>"
      have d: "ds ! i \<noteq> []" "map_of (ds ! i) ''name'' \<noteq> None" "map_of (ds ! i) ''email'' \<noteq> None"
        using wfi by (auto simp: well_formed_def)
      have adv: "advance now (jobs ! i) (us0 @ new) = (Holding ?u, us0 @ new)"
        using d f by (simp add: arrived email_of_def)
      have r: "run sched (jobs[i := Holding ?u], us0 @ new) = (jobs', us')"
        using Cons.prems(4) True adv x by simp
      have t: "list_all2 tracks ds (jobs[i := Holding ?u])"
        by (rule tracks_update[OF Cons.prems(1) True]) (simp add: tracks_def email_of_def)
      have same: "answered ((jobs[i := Holding ?u]) ! j) = answered (jobs ! j)" if "j < length ds" for j
        using arrived True by (cases "j = i") auto
      have s: "set (map u_email new) \<subseteq>
          {email_of (ds ! j) | j. j < length ds \<and> answered ((jobs[i := Holding ?u]) ! j)}"
        using Cons.prems(2) same by auto
      have c: "length new = length (filter answered (jobs[i := Holding ?u]))"
        using count_update[OF True, of answered "Holding ?u"] arrived Cons.prems(3) by simp
      from Cons.IH[OF t s c r] show ?thesis .
    next
      case holding
      have adv: "advance now (jobs ! i) (us0 @ new) = (Answered 201, us0 @ (new @ [u]))"
        by (simp add: holding)
      have r: "run sched (jobs[i := Answered 201], us0 @ (new @ [u])) = (jobs', us')"
        using Cons.prems(4) True adv x by simp
      have t: "list_all2 tracks ds (jobs[i := Answered 201])"
        by (rule tracks_update[OF Cons.prems(1) True]) (simp add: tracks_def)
      have keep: "answered ((jobs[i := Answered 201]) ! j)" if "j < length ds" "answered (jobs ! j)" for j
        using that True by (cases "j = i") auto
      have here: "answered ((jobs[i := Answered 201]) ! i)" using True by simp
      have s: "set (map u_email (new @ [u])) \<subseteq>
          {email_of (ds ! j) | j. j < length ds \<and> answered ((jobs[i := Answered 201]) ! j)}"
      proof
        fix e assume "e \<in> set (map u_email (new @ [u]))"
        then consider "e \<in> set (map u_email new)" | "e = u_email u" by auto
        then show "e \<in> {email_of (ds ! j) | j. j < length ds \<and> answered ((jobs[i := Answered 201]) ! j)}"
        proof cases
          case 1
          with Cons.prems(2) obtain j where "j < length ds" "answered (jobs ! j)" "e = email_of (ds ! j)"
            by auto
          with keep show ?thesis by blast
        next
          case 2
          with holding(2) i here show ?thesis by blast
        qed
      qed
      have c: "length (new @ [u]) = length (filter answered (jobs[i := Answered 201]))"
        using count_update[OF True, of answered "Answered 201"] holding(1) Cons.prems(3) by simp
      from Cons.IH[OF t s c r] show ?thesis .
    next
      case finished
      have adv: "advance now (jobs ! i) (us0 @ new) = (Answered 201, us0 @ new)"
        by (simp add: finished)
      have same: "jobs[i := Answered 201] = jobs"
        using finished list_update_id[of jobs i] by simp
      have r: "run sched (jobs, us0 @ new) = (jobs', us')"
        using Cons.prems(4) True adv x same by simp
      from Cons.IH[OF Cons.prems(1-3) r] show ?thesis .
    qed
  qed
qed

lemma crowd_tracks: "list_all2 tracks ds (crowd ds)"
  by (induction ds) (simp_all add: crowd_def tracks_def)

lemma crowd_unanswered: "filter answered (crowd ds) = []"
  by (induction ds) (simp_all add: crowd_def)

lemma tracks_answered:
  "list_all2 tracks ds jobs \<Longrightarrow> list_all answered jobs \<Longrightarrow> jobs = replicate (length ds) (Answered 201)"
proof (induction rule: list_all2_induct)
  case Nil
  show ?case by simp
next
  case (Cons d ds j jobs)
  then show ?case by (auto simp: tracks_def)
qed

lemma no_lost_writes:
  assumes "\<forall>d\<in>set ds. well_formed d" and "distinct (map email_of ds)"
    and "set (map email_of ds) \<inter> u_email ` set us0 = {}"
    and "run sched (crowd ds, us0) = (jobs', us')" and "list_all answered jobs'"
  shows "jobs' = replicate (length ds) (Answered 201) \<and> length us' = length us0 + length ds
     \<and> take (length us0) us' = us0"
proof -
  have "\<exists>new'. us' = us0 @ new' \<and> list_all2 tracks ds jobs'
          \<and> length new' = length (filter answered jobs')"
    by (rule run_invariant[OF assms(1-3) crowd_tracks, of "[]" sched jobs' us'])
       (simp_all add: crowd_unanswered assms(4))
  then obtain new' where n: "us' = us0 @ new'" "list_all2 tracks ds jobs'"
    "length new' = length (filter answered jobs')" by blast
  have j: "jobs' = replicate (length ds) (Answered 201)"
    by (rule tracks_answered[OF n(2) assms(5)])
  have "filter answered jobs' = jobs'" using assms(5) by (simp add: list_all_iff)
  with n j show ?thesis by simp
qed

lemma in_turn_from:
  "concat (map (\<lambda>i. [(i, 0::real), (i, 0)]) [k..<k + Suc n])
     = (k, 0) # (k, 0) # concat (map (\<lambda>i. [(i, 0), (i, 0)]) [Suc k..<Suc k + n])"
  by (simp add: upt_rec)

lemma one_after_another:
  "\<forall>d\<in>set ds. well_formed d \<Longrightarrow> distinct (map email_of ds)
   \<Longrightarrow> set (map email_of ds) \<inter> u_email ` set us = {}
   \<Longrightarrow> run (concat (map (\<lambda>i. [(i, 0), (i, 0)]) [length pre..<length pre + length ds]))
         (pre @ crowd ds, us)
       = (pre @ replicate (length ds) (Answered 201),
          us @ map (\<lambda>(k, d). fresh_user k d) (enumerate (length us) ds))"
proof (induction ds arbitrary: pre us)
  case Nil
  show ?case by (simp add: crowd_def)
next
  case (Cons d ds)
  let ?rest = "concat (map (\<lambda>i. [(i, 0::real), (i, 0)]) [Suc (length pre)..<Suc (length pre) + length ds])"
  let ?u = "fresh_user (length us) d"
  have wf: "well_formed d" and wfs: "\<forall>d\<in>set ds. well_formed d" using Cons.prems(1) by auto
  have dist: "distinct (map email_of ds)" and new: "email_of d \<notin> set (map email_of ds)"
    using Cons.prems(2) by auto
  have "\<forall>u\<in>set us. u_email u \<noteq> email_of d"
    using Cons.prems(3) by (metis disjoint_iff image_eqI list.set_intros(1) list.simps(9))
  then have f: "find (\<lambda>u. u_email u = email_of d) us = None"
    unfolding find_None_iff by blast
  have dd: "d \<noteq> []" "map_of d ''name'' \<noteq> None" "map_of d ''email'' \<noteq> None"
    using wf by (auto simp: well_formed_def)
  have adv1: "advance 0 ((pre @ crowd (d # ds)) ! length pre) us = (Holding ?u, us)"
    using dd f by (simp add: crowd_def email_of_def fresh_user_def)
  have adv2: "advance 0 (((pre @ crowd (d # ds))[length pre := Holding ?u]) ! length pre) us
      = (Answered 201, us @ [?u])"
    by (simp add: crowd_def)
  have fresh': "set (map email_of ds) \<inter> u_email ` set (us @ [?u]) = {}"
  proof -
    have "u_email ?u = email_of d" by (simp add: fresh_user_def email_of_def)
    with new Cons.prems(3) show ?thesis by auto
  qed
  have "run (concat (map (\<lambda>i. [(i, 0), (i, 0)]) [length pre..<length pre + length (d # ds)]))
         (pre @ crowd (d # ds), us)
      = run ((length pre, 0) # (length pre, 0) # ?rest) (pre @ crowd (d # ds), us)"
    using in_turn_from[of "length pre" "length ds"] by simp
  also have "\<dots> = run ((length pre, 0) # ?rest) ((pre @ crowd (d # ds))[length pre := Holding ?u], us)"
    by (rule run_step[OF _ adv1]) (simp add: crowd_def)
  also have "\<dots> = run ?rest (((pre @ crowd (d # ds))[length pre := Holding ?u])[length pre := Answered 201],
                          us @ [?u])"
    by (rule run_step[OF _ adv2]) (simp add: crowd_def)
  also have "\<dots> = run ?rest ((pre @ [Answered 201]) @ crowd ds, us @ [?u])"
    by (simp add: crowd_def)
  also have "\<dots> = ((pre @ [Answered 201]) @ replicate (length ds) (Answered 201),
        (us @ [?u]) @ map (\<lambda>(k, d). fresh_user k d) (enumerate (length (us @ [?u])) ds))"
    using Cons.IH[OF wfs dist fresh', of "pre @ [Answered 201]"] by simp
  finally show ?case by (simp add: replicate_app_Cons_same)
qed

lemma enumerate_ids:
  "map u_id (map (\<lambda>(k, d). fresh_user k d) (enumerate n ds)) = map (\<lambda>k. int k + 1) [n..<n + length ds]"
  by (induction ds arbitrary: n) (simp_all add: fresh_user_def upt_rec)

lemma enumerate_emails:
  "map u_email (map (\<lambda>(k, d). fresh_user k d) (enumerate n ds)) = map email_of ds"
  by (induction ds arbitrary: n) (simp_all add: fresh_user_def email_of_def)

text \<open>
  What the code does keep. Take any number of requests to create users, with
  well-formed bodies whose emails differ from each other and from the emails in the
  list. However their steps interleave, once all are answered each is answered 201,
  the list has grown by exactly as many users as there were requests and its old part
  is unchanged: no write is lost. When the requests run one after another the new users
  get the identifiers that follow the length of the list. A request that runs with
  nothing else in flight does what \<open>create_user\<close> does.
\<close>

lemma callers_under_every_schedule:
  assumes "list_all well_formed ds" and "distinct (map email_of ds)"
    and "set (map email_of ds) \<inter> u_email ` set us0 = {}"
  shows "(run sched (crowd ds, us0) = (jobs', us') \<and> list_all answered jobs' \<longrightarrow>
            jobs' = replicate (length ds) (Answered 201)
            \<and> length us' = length us0 + length ds \<and> take (length us0) us' = us0)
    \<and> (\<exists>new. run (in_turn (length ds)) (crowd ds, us0)
                 = (replicate (length ds) (Answered 201), us0 @ new)
          \<and> map u_id new = map (\<lambda>k. int k + 1) [length us0..<length us0 + length ds]
          \<and> distinct (map u_id new) \<and> map u_email new = map email_of ds)
    \<and> (\<exists>r w' now. create_user user_data w = (Inr r, w')
          \<and> alone now user_data (users (st w)) = ([Answered (status_code r)], users (st w')))"
proof (intro conjI impI)
  have wf: "\<forall>d\<in>set ds. well_formed d" using assms(1) by (simp add: list_all_iff)
  show "jobs' = replicate (length ds) (Answered 201)"
    and "length us' = length us0 + length ds" and "take (length us0) us' = us0"
    if "run sched (crowd ds, us0) = (jobs', us') \<and> list_all answered jobs'"
    using no_lost_writes[OF wf assms(2,3), of sched jobs' us'] that by simp_all
  let ?new = "map (\<lambda>(k, d). fresh_user k d) (enumerate (length us0) ds)"
  have r: "run (in_turn (length ds)) (crowd ds, us0)
                 = (replicate (length ds) (Answered 201), us0 @ ?new)"
    using one_after_another[OF wf assms(2,3), of "[]"] by (simp add: in_turn_def)
  have ids: "map u_id ?new = map (\<lambda>k. int k + 1) [length us0..<length us0 + length ds]"
    by (rule enumerate_ids)
  have "inj_on (\<lambda>k. int k + 1) A" for A by (rule inj_onI) simp
  then have d: "distinct (map u_id ?new)"
    unfolding ids by (simp add: distinct_map)
  show "\<exists>new. run (in_turn (length ds)) (crowd ds, us0)
                 = (replicate (length ds) (Answered 201), us0 @ new)
          \<and> map u_id new = map (\<lambda>k. int k + 1) [length us0..<length us0 + length ds]
          \<and> distinct (map u_id new) \<and> map u_email new = map email_of ds"
    using r ids d enumerate_emails[of "length us0" ds] by blast
  show "\<exists>r w' now. create_user user_data w = (Inr r, w')
          \<and> alone now user_data (users (st w)) = ([Answered (status_code r)], users (st w'))"
    by (rule alone_create_user)
qed

text \<open>A hundred callers on an empty list, one after another.\<close>

lemma callers_in_turn_example:
  "list_all well_formed (map caller [0..<100]) \<and> distinct (map email_of (map caller [0..<100]))
   \<and> set (map email_of (map caller [0..<100])) \<inter> u_email ` set [] = {}
   \<and> length (snd (run (in_turn 100) (crowd (map caller [0..<100]), []))) = 100
   \<and> distinct (map u_id (snd (run (in_turn 100) (crowd (map caller [0..<100]), []))))"
proof -
  have wf: "list_all well_formed (map caller [0..<100])"
    by (simp add: list_all_iff well_formed_def caller_def)
  have inj: "inj_on (\<lambda>k. email_of (caller k)) A" for A
    by (rule inj_onI) (simp add: email_of_def caller_def entry_def)
  have d: "distinct (map email_of (map caller [0..<100]))"
    by (simp add: distinct_map comp_def inj)
  have f: "set (map email_of (map caller [0..<100])) \<inter> u_email ` set [] = {}" by simp
  from callers_under_every_schedule[OF wf d f]
  obtain new where r: "run (in_turn (length (map caller [0..<100]))) (crowd (map caller [0..<100]), [])
        = (replicate (length (map caller [0..<100])) (Answered 201), [] @ new)"
    and ids: "map u_id new = map (\<lambda>k. int k + 1)
        [length ([]::user list)..<length ([]::user list) + length (map caller [0..<100])]"
    and dist: "distinct (map u_id new)"
    by blast
  have len: "length new = 100"
    using arg_cong[OF ids, of length] by simp
  have r': "snd (run (in_turn 100) (crowd (map caller [0..<100]), [])) = new"
    using r by simp
  show ?thesis
    using wf d f len dist unfolding r' by simp
qed


end
